theory Spec2Isabelle
  imports Main
begin

section \<open>zcubes.c: the supervisor's argument validation\<close>

text \<open>
  The model follows \<^verbatim>\<open>main\<close> of \<^verbatim>\<open>src/zcubes.c\<close> line by line up to the point where the
  workers are forked. The command line is taken after the C library has parsed it:
  \<^verbatim>\<open>atoi\<close> results are \<open>int\<close>, \<^verbatim>\<open>strto64\<close> and \<^verbatim>\<open>strto128\<close> results are \<open>nat\<close>.
  Unsigned machine integers are \<open>nat\<close> with the wrap-around written out.
  Everything written to \<^verbatim>\<open>stderr\<close> is collected in a list of messages.
\<close>

datatype msg =
    Usage
  | Warn_profiling_cores
  | Warn_cores_exceed
  | Err_k
  | Err_dmax
  | Err_pmax_form
  | Err_p0_small
  | Err_pmax_gt_p0
  | Err_profiling_opts
  | Warn_p0_not_prime
  | Warn_no_cuberoots
  | Err_p0_divides_k
  | Err_pmin_pmax
  | Err_zmax
  | Warn_ignoring_opts
  | Err_p0_sqrt
  | Err_bounds
  | Warn_zmin

text \<open>
  \<^verbatim>\<open>argv[3]\<close> and \<^verbatim>\<open>argv[4]\<close>: either two plain integers (no \<^verbatim>\<open>'x'\<close> in \<^verbatim>\<open>argv[3]\<close>),
  or the form \<^verbatim>\<open>P0xQ\<close>. For the second form the fields are: whether \<^verbatim>\<open>argv[4]\<close> starts
  with the same characters as \<^verbatim>\<open>argv[3]\<close> up to and including the \<^verbatim>\<open>'x'\<close> (the
  \<^verbatim>\<open>memcmp\<close> of line 549), \<^verbatim>\<open>atoi\<close> of the part before the \<^verbatim>\<open>'x'\<close>, and \<^verbatim>\<open>atoi\<close> of
  the parts after it in \<^verbatim>\<open>argv[3]\<close> and \<^verbatim>\<open>argv[4]\<close>.
\<close>

datatype prange = Plain nat nat | Pinned bool int int int

record cmdline =
  argc :: nat
  cores_arg :: int
  k_arg :: int
  range_arg :: prange
  dmax_arg :: nat
  zmax_arg :: nat
  opts_arg :: int

text \<open>
  What \<^verbatim>\<open>main\<close> reads from its collaborators: the build flavour (\<^verbatim>\<open>profiling()\<close>,
  \<^verbatim>\<open>reporting()\<close>), \<^verbatim>\<open>get_nprocs()\<close>, the compile-time limits \<^verbatim>\<open>DMAX\<close>, \<^verbatim>\<open>ZMAXBITS\<close>
  and \<^verbatim>\<open>ZMAX\<close> (declared in headers that are not part of \<^verbatim>\<open>src/\<close>), and the answer of
  \<^verbatim>\<open>report_phase (PHASE_PRECOMPUTE)\<close>.
\<close>

record sysenv =
  profiling :: bool
  reporting :: bool
  nprocs :: int
  DMAX :: nat
  ZMAXBITS :: nat
  ZMAX :: nat
  report_precompute :: bool

datatype worker_path = Process_primes | Process_subprimes

record launch =
  l_cores :: int
  l_p0 :: nat
  l_pmin :: nat
  l_pmax :: nat
  l_opts :: int
  l_path :: worker_path

text \<open>
  How \<^verbatim>\<open>main\<close> ends before any worker runs: \<open>Exit c\<close> is \<^verbatim>\<open>return c\<close> or \<^verbatim>\<open>exit (c)\<close>,
  \<open>Abort\<close> is a failed \<^verbatim>\<open>assert\<close>, \<open>Profile\<close> is the single in-process run of
  \<^verbatim>\<open>process_primes\<close> of line 596, and \<open>Launch\<close> is the fork of the workers with the routine
  each of them runs (line 607).
\<close>

datatype outcome = Exit int | Abort | Profile launch | Launch launch

type_synonym 'a step = "(msg list \<times> outcome) + (msg list \<times> 'a)"

definition u32 :: "int \<Rightarrow> nat" where
  "u32 i = nat (i mod 2 ^ 32)"

definition u64 :: "int \<Rightarrow> nat" where
  "u64 i = nat (i mod 2 ^ 64)"

definition goodk :: "int \<Rightarrow> bool" where
  \<comment> \<open>Modelled from the spec: \<^verbatim>\<open>goodk\<close> is declared in \<^verbatim>\<open>kdata.h\<close>, which is not in \<^verbatim>\<open>src/\<close>.
      The spec's CLI section: k in [1,1000], k congruent to 3 or 6 mod 9.\<close>
  "goodk k = (1 \<le> k \<and> k \<le> 1000 \<and> (k mod 9 = 3 \<or> k mod 9 = 6))"

definition is_prime :: "nat \<Rightarrow> bool" where
  "is_prime n = (1 < n \<and> list_all (\<lambda>d. \<not> d dvd n) [2..<n])"

definition primes_next_prime :: "nat \<Rightarrow> nat" where
  \<comment> \<open>Modelled from the spec: \<^verbatim>\<open>primes_next_prime\<close> is declared in \<^verbatim>\<open>primes.h\<close>, which is
      not in \<^verbatim>\<open>src/\<close>; the least prime above \<open>n\<close> (searched up to \<open>2 * n + 2\<close>, where
      there always is one).\<close>
  "primes_next_prime n =
     (case List.find is_prime [Suc n..<2 * n + 3] of Some p \<Rightarrow> p | None \<Rightarrow> 0)"

definition has_cuberoots_modp :: "nat \<Rightarrow> nat \<Rightarrow> bool" where
  \<comment> \<open>Modelled from the spec: \<^verbatim>\<open>has_cuberoots_modp\<close> is declared in \<^verbatim>\<open>cbrts.h\<close>, which is
      not in \<^verbatim>\<open>src/\<close>; whether k has a cube root mod p.\<close>
  "has_cuberoots_modp k p = list_ex (\<lambda>x. x ^ 3 mod p = k mod p) [0..<p]"

fun ui128_len :: "nat \<Rightarrow> nat" where
  \<comment> \<open>Modelled from the spec: \<^verbatim>\<open>ui128_len\<close> is declared in \<^verbatim>\<open>cstd.h\<close>, which is not in
      \<^verbatim>\<open>src/\<close>; the number of bits of its argument.\<close>
  "ui128_len n = (if n = 0 then 0 else Suc (ui128_len (n div 2)))"

definition ld_of_u128 :: "nat \<Rightarrow> nat" where
  \<comment> \<open>The conversion \<^verbatim>\<open>(long double) x\<close> of a 128-bit unsigned integer, for the x87 extended
      format (a significand of 64 bits, rounding to nearest, ties to even): exact below
      \<open>2\<^sup>6\<^sup>4\<close>; above, \<open>x\<close> is rounded to a multiple of \<open>u = 2 ^ (len x - 64)\<close>.\<close>
  "ld_of_u128 x =
     (if x < 2 ^ 64 then x
      else
        let u = 2 ^ (ui128_len x - 64); q = x div u; r = x mod u in
        if 2 * r < u \<or> (2 * r = u \<and> even q) then q * u else (q + 1) * u)"

definition zmaxld_of :: "nat \<Rightarrow> nat" where
  \<comment> \<open>Line 571: \<^verbatim>\<open>zmaxld = (long double) (zmax128 + (zmax128>>62) + 1)\<close>; the sum is 128-bit.\<close>
  "zmaxld_of zmax = ld_of_u128 ((zmax + zmax div 2 ^ 62 + 1) mod 2 ^ 128)"

text \<open>Lines 532 to 546: the argument count, the number of cores, k and dmax.\<close>

definition main_cores :: "sysenv \<Rightarrow> cmdline \<Rightarrow> int step" where
  "main_cores env c =
     (if argc c < 7 then Inl ([Usage], Exit 0)
      else if cores_arg c < 0 then Inl ([], Abort)
      else
        let (m1, cores1) =
              (if profiling env \<and> cores_arg c \<noteq> 1 then ([Warn_profiling_cores], 1)
               else ([], cores_arg c));
            n = nprocs env;
            (m2, cores) =
              (if cores1 = 0 then (m1, n)
               else if cores1 > n then (m1 @ [Warn_cores_exceed], cores1)
               else (m1, cores1))
        in if k_arg c < 0 \<or> \<not> goodk (k_arg c) then Inl (m2 @ [Err_k], Exit (- 1))
           else if dmax_arg c > DMAX env then Inl (m2 @ [Err_dmax], Exit (- 1))
           else Inr (m2, cores))"

text \<open>
  Lines 548 to 560: the prime range. The result is \<open>(p0, pmin, pmax)\<close>. The comparison
  \<^verbatim>\<open>pmax <= sqrt(dmax)\<close> of line 559 is taken over the reals (\<open>pmax\<^sup>2 \<le> dmax\<close>); the
  rounding of the \<^verbatim>\<open>double\<close> is not modelled.
\<close>

definition main_range :: "sysenv \<Rightarrow> cmdline \<Rightarrow> int \<Rightarrow> (nat \<times> nat \<times> nat) step" where
  "main_range env c cores =
     (case range_arg c of
        Pinned same a q r \<Rightarrow>
          if \<not> same then Inl ([Err_pmax_form], Exit (- 1))
          else
            let p0 = u32 a in
            if p0 < 2 then Inl ([Err_p0_small], Exit (- 1))
            else
              let pmin = u64 q; pmax = u64 r in
              if pmax > p0 then Inl ([Err_pmax_gt_p0], Exit (- 1))
              else if profiling env \<or> (argc c > 7 \<and> opts_arg c \<noteq> 0)
                then Inl ([Err_profiling_opts], Exit (- 1))
              else Inr ([], (p0, pmin, pmax))
      | Plain pmin pmax \<Rightarrow>
          if cores > 1 \<and> pmin = pmax \<and> pmax * pmax \<le> dmax_arg c
          then Inr ([], (pmin mod 2 ^ 32, 2, pmax))
          else Inr ([], (1, pmin, pmax)))"

text \<open>Lines 561 to 565: the checks on p0, and \<^verbatim>\<open>pmin <= pmax\<close>. The result is the new pmin.\<close>

definition main_p0 :: "cmdline \<Rightarrow> nat \<Rightarrow> nat \<Rightarrow> nat \<Rightarrow> nat step" where
  "main_p0 c p0 pmin pmax =
     (let k = nat (k_arg c);
          m1 = (if p0 > 1 \<and> primes_next_prime (p0 - 1) \<noteq> p0 then [Warn_p0_not_prime] else []);
          m2 = (if p0 > 1 \<and> p0 mod 3 = 1 \<and> \<not> has_cuberoots_modp k p0
                then m1 @ [Warn_no_cuberoots] else m1)
      in if p0 > 1 \<and> k mod p0 = 0 then Inl (m2 @ [Err_p0_divides_k], Exit (- 1))
         else
           let pmin' = (if pmin < 2 then 2 else pmin) in
           if pmax < pmin' then Inl (m2 @ [Err_pmin_pmax], Exit (- 1))
           else Inr (m2, pmin'))"

text \<open>
  Lines 567 to 579: zmax, the options and the bounds. The result is \<^verbatim>\<open>opts\<close>. The two
  floating-point comparisons are taken over the reals: \<^verbatim>\<open>sqrt(dmax) < p0\<close> is
  \<open>dmax < p0\<^sup>2\<close>, and \<^verbatim>\<open>3.847322101863072639L*dmax > zmaxld\<close> is compared after
  multiplying both sides by \<open>10\<^sup>1\<^sup>8\<close>.
\<close>

definition main_bounds :: "sysenv \<Rightarrow> cmdline \<Rightarrow> nat \<Rightarrow> nat \<Rightarrow> nat \<Rightarrow> int step" where
  "main_bounds env c p0 pmin pmax =
     (let zmax128 = zmax_arg c; dmax = dmax_arg c in
      if ui128_len zmax128 > ZMAXBITS env then Inl ([Err_zmax], Exit (- 1))
      else if \<not> zmax128 < ZMAX env then Inl ([], Abort)
      else
        let zmaxld = zmaxld_of zmax128;
            (m1, opts) =
              (if reporting env then ([], if argc c > 7 then opts_arg c else 0)
               else (if argc c > 7 then [Warn_ignoring_opts] else [], 0))
        in if dmax < p0 * p0 then Inl (m1 @ [Err_p0_sqrt], Exit (- 1))
           else if pmax < pmin \<or> dmax < (p0 * pmax) mod 2 ^ 64 \<or> zmax128 < dmax
             then Inl (m1 @ [Err_bounds], Exit (- 1))
           else if 3847322101863072639 * dmax > 10 ^ 18 * zmaxld
             then (if opts = 0 then Inl (m1 @ [Warn_zmin], Exit (- 1))
                   else Inr (m1 @ [Warn_zmin], opts))
           else Inr (m1, opts))"

text \<open>
  The whole of \<^verbatim>\<open>main\<close> up to the fork: the four stages in sequence, then the
  \<^verbatim>\<open>PHASE_PRECOMPUTE\<close> checkpoint (line 593), the profiling run (line 596) and the choice
  of the worker routine (line 607).
\<close>

definition main :: "sysenv \<Rightarrow> cmdline \<Rightarrow> msg list \<times> outcome" where
  "main env c =
     (case main_cores env c of
        Inl r \<Rightarrow> r
      | Inr (m1, cores) \<Rightarrow>
     (case main_range env c cores of
        Inl (m, out) \<Rightarrow> (m1 @ m, out)
      | Inr (m2, (p0, pmin0, pmax)) \<Rightarrow>
     (case main_p0 c p0 pmin0 pmax of
        Inl (m, out) \<Rightarrow> (m1 @ m2 @ m, out)
      | Inr (m3, pmin) \<Rightarrow>
     (case main_bounds env c p0 pmin pmax of
        Inl (m, out) \<Rightarrow> (m1 @ m2 @ m3 @ m, out)
      | Inr (m4, opts) \<Rightarrow>
          let ms = m1 @ m2 @ m3 @ m4;
              l = \<lparr>l_cores = cores, l_p0 = p0, l_pmin = pmin, l_pmax = pmax, l_opts = opts,
                   l_path = (if p0 > 1 then Process_subprimes else Process_primes)\<rparr>
          in if \<not> report_precompute env then (ms, Exit 0)
             else if profiling env then (ms, Profile (l\<lparr>l_path := Process_primes\<rparr>))
             else (ms, Launch l)))))"

text \<open>The number of positional arguments: \<^verbatim>\<open>argv[0]\<close> is the program's name.\<close>

definition positional_args :: "cmdline \<Rightarrow> nat" where
  "positional_args c = argc c - 1"

text \<open>
  Example inputs. The limits \<^verbatim>\<open>DMAX\<close>, \<^verbatim>\<open>ZMAXBITS\<close> and \<^verbatim>\<open>ZMAX\<close> are given values that
  leave room for the examples; the command lines are \<^verbatim>\<open>zcubes 1 33 2 100 10000 1000000000000\<close>,
  \<^verbatim>\<open>zcubes 2 33 5 5 10000 1000000000000\<close> and \<^verbatim>\<open>zcubes 2 33 P0x2 P0x3 10000 1000000000000\<close>.
\<close>

definition env0 :: sysenv where
  "env0 = \<lparr>profiling = False, reporting = False, nprocs = 4, DMAX = 2 ^ 63 - 1,
           ZMAXBITS = 95, ZMAX = 2 ^ 95, report_precompute = True\<rparr>"

definition cmd1 :: cmdline where
  "cmd1 = \<lparr>argc = 7, cores_arg = 1, k_arg = 33, range_arg = Plain 2 100,
           dmax_arg = 10000, zmax_arg = 10 ^ 12, opts_arg = 0\<rparr>"

definition cmd5 :: cmdline where
  "cmd5 = \<lparr>argc = 7, cores_arg = 2, k_arg = 33, range_arg = Plain 5 5,
           dmax_arg = 10000, zmax_arg = 10 ^ 12, opts_arg = 0\<rparr>"

definition cmdx :: "int \<Rightarrow> cmdline" where
  "cmdx p0 = \<lparr>argc = 7, cores_arg = 2, k_arg = 33, range_arg = Pinned True p0 2 3,
           dmax_arg = 10000, zmax_arg = 10 ^ 12, opts_arg = 0\<rparr>"

section \<open>zcubes.c: the worker's data\<close>

text \<open>
  The worker reads globals that are fixed after the precomputation, and tables that
  \<^verbatim>\<open>kdata.h\<close>, \<^verbatim>\<open>cbrts.h\<close> and \<^verbatim>\<open>zcheck.h\<close> build. These headers are not part of \<^verbatim>\<open>src/\<close>, so
  the tables and the collaborators' functions are fields of one record, with the fields of the
  table entries that \<^verbatim>\<open>zcubes.c\<close> reads: \<^verbatim>\<open>kdtab[ki].d\<close>, \<^verbatim>\<open>.n\<close>, \<^verbatim>\<open>.fi\<close>; for a \<^verbatim>\<open>struct cdrec\<close>
  \<^verbatim>\<open>d\<close>, \<^verbatim>\<open>p\<close>, \<^verbatim>\<open>n\<close>, \<^verbatim>\<open>r\<close>, \<^verbatim>\<open>sdpi\<close>; for a \<^verbatim>\<open>struct sdrec\<close> \<^verbatim>\<open>d\<close>, \<^verbatim>\<open>n\<close>, \<^verbatim>\<open>r\<close>, \<^verbatim>\<open>i\<close> (the Barrett
  constant \<^verbatim>\<open>dinv\<close> only serves \<^verbatim>\<open>b32_red\<close>, modelled by \<open>mod\<close>). Arrays are lists, read with
  \<open>!\<close>; index 0 of \<^verbatim>\<open>cptab\<close>, \<^verbatim>\<open>sdtab\<close> and of the cofactor table is the sentinel the loops
  stop at.
\<close>

record kdrec =
  kd_d :: nat
  kd_n :: nat
  kd_fi :: nat

record cdrec =
  cd_d :: nat
  cd_p :: nat
  cd_n :: nat
  cd_r :: nat
  cd_sdpi :: nat

record sdrec =
  sd_d :: nat
  sd_n :: nat
  sd_r :: nat
  sd_i :: nat

datatype phase =
  PHASE_CACHED | PHASE_UNCACHED | PHASE_COCACHED | PHASE_NEARPRIME | PHASE_PRIME | PHASE_BIGPRIME

record tabs =
  K :: nat
  dmax :: nat
  zmax128 :: nat
  pdmin :: nat
  bpmin :: nat
  ZSHORT :: nat
  ZFEW :: nat
  cpmax :: nat
  cdmin :: nat
  sdmin :: nat
  sdmax :: nat
  kdmin :: nat
  km1 :: nat
  km2 :: nat
  km :: "nat list"
  k27m :: "nat list"
  cptab :: "nat list"
  kdtab :: "kdrec list"
  kdmax :: "nat list"
  cdtab :: "cdrec list"
  cdroots :: "nat list"
  sdtab :: "sdrec list"
  sdroots :: "nat list"
  sdinvs :: "nat list"
  sgnz_index :: "nat \<Rightarrow> nat"
  onezmod7 :: "nat \<Rightarrow> nat \<Rightarrow> bool"
  cuberoots_modp :: "nat \<Rightarrow> nat list"
  cuberoots_modq :: "nat \<Rightarrow> nat \<Rightarrow> nat list"
  cached_cuberoots_e :: "nat \<Rightarrow> nat"
  cached_cuberoots_modq :: "nat \<Rightarrow> nat \<Rightarrow> nat list"
  report_p :: "nat \<Rightarrow> bool"
  report_c :: "nat \<Rightarrow> bool"
  report_d :: "nat \<Rightarrow> nat \<Rightarrow> bool"
  report_phase :: "phase \<Rightarrow> bool"

definition zmaxld :: "tabs \<Rightarrow> nat" where
  "zmaxld t = zmaxld_of (zmax128 t)"

definition fastceilboundl :: "nat \<Rightarrow> nat \<Rightarrow> nat" where
  \<comment> \<open>Modelled from the spec: \<^verbatim>\<open>fastceilboundl\<close> is declared in \<^verbatim>\<open>cstd.h\<close>, which is not in
      \<^verbatim>\<open>src/\<close>. Its argument is always a quotient of two \<^verbatim>\<open>long double\<close> values; the spec
      reads its result as the ceiling of that quotient. Numerator and denominator are
      passed separately and the ceiling is taken of the exact quotient. For a numerator
      below \<open>2\<^sup>6\<^sup>4\<close> this is also the ceiling of the quotient rounded to 64 significant bits:
      a rounded value above an integer \<open>n\<close> can only fall on \<open>n\<close> when
      \<open>n * den \<ge> 2\<^sup>6\<^sup>4\<close>. For larger numerators the two may differ, and the theorems that
      depend on the value are stated for \<open>zmaxld < 2\<^sup>6\<^sup>4\<close>.\<close>
  "fastceilboundl num den = (num + den - 1) div den"

section \<open>zcubes.c: the per-d dispatcher\<close>

text \<open>
  A call of one of the three z-checkers of \<^verbatim>\<open>zcheck.h\<close>, with the arguments that \<^verbatim>\<open>zcubes.c\<close>
  computes itself: \<open>d\<close>, \<open>si\<close>, \<open>a\<close>, the roots \<open>za\<close> and their number \<open>ca\<close>, the modulus \<open>b\<close>,
  and for \<^verbatim>\<open>zrcheckafew\<close> the progression length; for \<^verbatim>\<open>zrchecklift\<close> \<open>d\<close>, \<open>si\<close>, \<open>ki\<close>,
  \<open>a\<close>, \<open>za\<close>, \<open>ca\<close>. The arguments \<^verbatim>\<open>zb\<close>, \<^verbatim>\<open>cb\<close>, \<^verbatim>\<open>ainvb\<close> and \<^verbatim>\<open>binv\<close> are read from tables of
  \<^verbatim>\<open>kdata.h\<close> and are left out.
\<close>

datatype zcall =
    Zrcheckone nat nat nat "nat list" nat nat
  | Zrcheckafew nat nat nat "nat list" nat nat nat
  | Zrchecklift nat nat nat nat "nat list" nat

text \<open>
  Lines 82 to 132. The result is \<open>None\<close> when \<^verbatim>\<open>report_d\<close> answers false (line 93 returns
  before any checker is called). \<^verbatim>\<open>d\<close>, \<^verbatim>\<open>n\<close> and \<^verbatim>\<open>n*ca\<close> are 64-bit, \<^verbatim>\<open>b\<close> is 32-bit; the
  product \<^verbatim>\<open>(uint128_t)a*b\<close> cannot wrap. \<^verbatim>\<open>m&1&d\<close> is 1 when \<open>m\<close> and \<open>d\<close> are both odd.
\<close>

definition procd :: "tabs \<Rightarrow> nat \<Rightarrow> nat \<Rightarrow> nat list \<Rightarrow> nat \<Rightarrow> zcall option" where
  "procd t ki a za ca =
     (let d = (a * kd_d (kdtab t ! ki)) mod 2 ^ 64 in
      if \<not> report_d t d (ca * kd_n (kdtab t ! ki)) then None
      else
        let si = sgnz_index t d;
            mi = kd_fi (kdtab t ! ki);
            m = k27m t ! mi;
            b7 = (if onezmod7 t d si then 7 else 1);
            b2 = 1 + (m mod 2) * (d mod 2);
            b = (m * b2 * b7) mod 2 ^ 32;
            n = fastceilboundl (zmaxld t) (a * b)
        in if n \<le> ZSHORT t \<or> (n * ca) mod 2 ^ 64 \<le> ZFEW t
           then (if a * b > zmax128 t then Some (Zrcheckone d si a za ca b)
                 else Some (Zrcheckafew d si a za ca b n))
           else Some (Zrchecklift d si ki a za ca))"

text \<open>Lines 135 to 163.\<close>

definition procdcoprime :: "tabs \<Rightarrow> nat \<Rightarrow> nat list \<Rightarrow> nat \<Rightarrow> zcall option" where
  "procdcoprime t d z c =
     (if \<not> report_d t d c then None
      else
        let si = sgnz_index t d;
            mi = (km1 t mod 2) * (d mod 2) + 2 * (if onezmod7 t d si then 1 else 0);
            b = km t ! mi;
            l = fastceilboundl (zmaxld t) (d * b)
        in if l \<le> ZSHORT t \<or> (l * c) mod 2 ^ 64 \<le> ZFEW t
           then (if d * b > zmax128 t then Some (Zrcheckone d si d z c b)
                 else Some (Zrcheckafew d si d z c b l))
           else Some (Zrchecklift d si 0 d z c))"

text \<open>Lines 168 to 181.\<close>

definition procdbigprime ::
  "tabs \<Rightarrow> nat \<Rightarrow> nat list \<Rightarrow> nat \<Rightarrow> nat \<Rightarrow> nat \<Rightarrow> nat \<Rightarrow> zcall option" where
  "procdbigprime t d z c si mi l =
     (if \<not> report_d t d c then None
      else
        let b = km t ! mi
        in if l = 1 then Some (Zrcheckone d si d z c b)
           else Some (Zrcheckafew d si d z c b l))"








text \<open>Lines 185 to 189: \<^verbatim>\<open>prockd\<close> calls \<^verbatim>\<open>procdcoprime\<close>, then \<^verbatim>\<open>procd\<close> for \<open>i = 1, 2, ...\<close>
  while \<^verbatim>\<open>d <= kdmax[i]\<close>. The calls are recorded; the loop of the model also stops at the
  end of the array, where the C code would read past it.\<close>

datatype dcall =
    Procdcoprime nat "nat list" nat
  | Procd nat nat "nat list" nat
  | Procdbigprime nat "nat list" nat nat nat nat

function prockd_loop :: "tabs \<Rightarrow> nat \<Rightarrow> nat list \<Rightarrow> nat \<Rightarrow> nat \<Rightarrow> dcall list" where
  "prockd_loop t d zd n i =
     (if i < length (kdmax t) \<and> d \<le> kdmax t ! i
      then Procd i d zd n # prockd_loop t d zd n (Suc i)
      else [])"
  by pat_completeness auto
termination
  by (relation "measure (\<lambda>(t, d, zd, n, i). length (kdmax t) - i)") auto

definition prockd :: "tabs \<Rightarrow> nat \<Rightarrow> nat list \<Rightarrow> nat \<Rightarrow> dcall list" where
  "prockd t d zd n = Procdcoprime d zd n # prockd_loop t d zd n 1"

text \<open>What a recorded dispatcher call does.\<close>

fun run_dcall :: "tabs \<Rightarrow> dcall \<Rightarrow> zcall option" where
  "run_dcall t (Procdcoprime d z c) = procdcoprime t d z c"
| "run_dcall t (Procd ki a za ca) = procd t ki a za ca"
| "run_dcall t (Procdbigprime d z c si mi l) = procdbigprime t d z c si mi l"

text \<open>
  An example of the worker's data, for k = 33 with dmax = 100 and zmax = 900. The cached
  primes are 2, 5 and 17 (33 has one cube root modulo each of them; it has none modulo 7
  and 13, and 3 and 11 divide it). The policy constants \<^verbatim>\<open>ZSHORT\<close> and \<^verbatim>\<open>ZFEW\<close> of
  \<^verbatim>\<open>zcheck.h\<close> and the tables of \<^verbatim>\<open>kdata.h\<close> are given example values; every reporter
  accepts.
\<close>

definition cuberoots_of :: "nat \<Rightarrow> nat \<Rightarrow> nat list" where
  "cuberoots_of k d = filter (\<lambda>x. x ^ 3 mod d = k mod d) [0..<d]"

definition tab33 :: tabs where
  "tab33 = \<lparr>K = 33, dmax = 100, zmax128 = 900, pdmin = 51, bpmin = 13,
     ZSHORT = 4, ZFEW = 16, cpmax = 17, cdmin = 101, sdmin = 101, sdmax = 0, kdmin = 3,
     km1 = 9, km2 = 18, km = [9, 18, 63, 126], k27m = [9, 18, 63, 126],
     cptab = [0, 2, 5, 17],
     kdtab = [\<lparr>kd_d = 1, kd_n = 1, kd_fi = 0\<rparr>, \<lparr>kd_d = 3, kd_n = 1, kd_fi = 0\<rparr>,
              \<lparr>kd_d = 11, kd_n = 1, kd_fi = 0\<rparr>, \<lparr>kd_d = 33, kd_n = 1, kd_fi = 0\<rparr>],
     kdmax = [100, 33, 9, 3, 0],
     cdtab = [\<lparr>cd_d = 0, cd_p = 0, cd_n = 0, cd_r = 0, cd_sdpi = 0\<rparr>], cdroots = [],
     sdtab = [\<lparr>sd_d = 0, sd_n = 0, sd_r = 0, sd_i = 0\<rparr>], sdroots = [], sdinvs = [],
     sgnz_index = (\<lambda>d. 0), onezmod7 = (\<lambda>d si. False),
     cuberoots_modp = (\<lambda>p. cuberoots_of 33 p),
     cuberoots_modq = (\<lambda>p i. cuberoots_of 33 (p ^ i)),
     cached_cuberoots_e = (\<lambda>pi. 1),
     cached_cuberoots_modq = (\<lambda>pi e. cuberoots_of 33 ([0, 2, 5, 17] ! pi ^ e)),
     report_p = (\<lambda>p. True), report_c = (\<lambda>n. True), report_d = (\<lambda>d n. True),
     report_phase = (\<lambda>ph. True)\<rparr>"

text \<open>
  The same example with thresholds that make every phase non-empty: the cofactors 2 and 4
  are in the cofactor table (for \<open>d \<ge> cdmin = 25\<close>), and the cofactor 2 is in \<^verbatim>\<open>sdtab\<close> with
  its root and the inverses mod 2 (for \<open>p \<ge> sdmin = 40\<close>).
\<close>

definition tab33c :: tabs where
  "tab33c = tab33\<lparr>cdmin := 25, sdmin := 40, sdmax := 2,
     cdtab := [\<lparr>cd_d = 0, cd_p = 0, cd_n = 0, cd_r = 0, cd_sdpi = 0\<rparr>,
               \<lparr>cd_d = 2, cd_p = 2, cd_n = 1, cd_r = 0, cd_sdpi = 1\<rparr>,
               \<lparr>cd_d = 4, cd_p = 2, cd_n = 1, cd_r = 1, cd_sdpi = 0\<rparr>],
     cdroots := [1, 1],
     sdtab := [\<lparr>sd_d = 0, sd_n = 0, sd_r = 0, sd_i = 0\<rparr>, \<lparr>sd_d = 2, sd_n = 1, sd_r = 0, sd_i = 0\<rparr>],
     sdroots := [1], sdinvs := [0, 1]\<rparr>"

section \<open>zcubes.c: the derived thresholds\<close>

text \<open>
  Lines 284 to 296: after the three table builders (which are not part of \<^verbatim>\<open>src/\<close>)
  \<^verbatim>\<open>precompute\<close> sets the globals \<^verbatim>\<open>pdmin\<close> and \<^verbatim>\<open>bpmin\<close>. \<^verbatim>\<open>pdmin\<close> is 64-bit. A division by
  zero (no cached prime, or \<^verbatim>\<open>ZSHORT = 0\<close>) is the result \<open>None\<close>.
\<close>

definition precompute_pdmin :: "tabs \<Rightarrow> nat option" where
  "precompute_pdmin t =
     (let m = (if kdmin t \<noteq> 0 then min (kdmin t) (cptab t ! 1) else cptab t ! 1) in
      if m = 0 then None
      else
        let pdmin0 = (1 + dmax t div m) mod 2 ^ 64 in
        Some (if pdmin0 \<le> K t then K t + 1 else pdmin0))"

definition precompute_bpmin :: "tabs \<Rightarrow> nat option" where
  "precompute_bpmin t =
     (let den = (if km1 t mod 2 = 1 then km2 t else km1 t) * ZSHORT t in
      if den = 0 then None
      else
        let bpmin0 = fastceilboundl (zmaxld t) den in
        Some (if bpmin0 \<le> 7 then 11 else bpmin0))"

definition precompute :: "tabs \<Rightarrow> tabs option" where
  "precompute t =
     (case precompute_pdmin t of
        None \<Rightarrow> None
      | Some pd \<Rightarrow>
     (case precompute_bpmin t of
        None \<Rightarrow> None
      | Some bp \<Rightarrow> Some (t\<lparr>pdmin := pd, bpmin := bp\<rparr>)))"

text \<open>The value that the specification gives for \<^verbatim>\<open>pdmin\<close>.\<close>

definition spec_pdmin :: "tabs \<Rightarrow> nat" where
  "spec_pdmin t = 1 + dmax t div min (kdmin t) (cptab t ! 1)"

section \<open>zcubes.c: the phase driver\<close>

text \<open>
  \<^verbatim>\<open>process_primes\<close> (lines 385 to 522) is modelled by the sequence of calls it makes: the
  calls of \<^verbatim>\<open>report_phase\<close>, of \<^verbatim>\<open>prockd\<close>, \<^verbatim>\<open>enumd\<close> and \<^verbatim>\<open>enumcd\<close> (with \<open>d\<close>, \<open>p\<close>, the roots
  and their number), and of \<^verbatim>\<open>procdcoprime\<close> and \<^verbatim>\<open>procdbigprime\<close>. The answers of \<^verbatim>\<open>report_p\<close>,
  \<^verbatim>\<open>report_c\<close> and \<^verbatim>\<open>report_phase\<close> are read from the record of the worker's data. The arrays
  \<^verbatim>\<open>z\<close> and \<^verbatim>\<open>zz\<close> are the lists of the roots they hold.
\<close>

datatype pcall =
    Phase_report phase
  | Call_prockd nat "nat list" nat
  | Call_enumd nat nat "nat list" nat
  | Call_enumcd nat nat "nat list" nat
  | Call_dispatch dcall

text \<open>
  How the routine ends: it returns, an \<^verbatim>\<open>assert\<close> fails, or it does not end. \<open>Diverges\<close> is
  also the result when a loop over the pipe is still running after the end of the pipe,
  which takes \<open>pmax = 2\<^sup>6\<^sup>4 - 1\<close>.
\<close>

datatype run = Returned "pcall list" | Aborted "pcall list" | Diverges

datatype 's body_result = Continue "pcall list" 's | Assert_failed "pcall list" | Spins

datatype 's loop_result = Loop_exit "pcall list" 's nat "nat list" | Loop_abort "pcall list" | Loop_spins

definition primes_read_pipe :: "nat list \<Rightarrow> nat \<times> nat list" where
  \<comment> \<open>Modelled from the spec: \<^verbatim>\<open>primes_read_pipe\<close> is declared in \<^verbatim>\<open>primes.h\<close>, which is not in
      \<^verbatim>\<open>src/\<close>; it returns the next prime for that worker, or \<open>2\<^sup>6\<^sup>4 - 1\<close> once the stream
      is exhausted. The pipe is the list of the primes this worker will be given.\<close>
  "primes_read_pipe pipe = (case pipe of [] \<Rightarrow> (2 ^ 64 - 1, []) | p # ps \<Rightarrow> (p, ps))"

text \<open>
  The loop \<^verbatim>\<open>for ( ; cond (p) ; p = primes_read_pipe (pipe,jobid) ) body\<close>, with the state
  that the body keeps between iterations. A \<^verbatim>\<open>continue\<close> in the body is the end of the body.
\<close>

fun pipe_loop ::
  "(nat \<Rightarrow> bool) \<Rightarrow> ('s \<Rightarrow> nat \<Rightarrow> 's body_result) \<Rightarrow> 's \<Rightarrow> nat \<Rightarrow> nat list \<Rightarrow> 's loop_result" where
  "pipe_loop cond body s p [] =
     (if \<not> cond p then Loop_exit [] s p []
      else case body s p of
             Spins \<Rightarrow> Loop_spins
           | Assert_failed cs \<Rightarrow> Loop_abort cs
           | Continue cs s' \<Rightarrow>
               if cond (2 ^ 64 - 1) then Loop_spins else Loop_exit cs s' (2 ^ 64 - 1) [])"
| "pipe_loop cond body s p (x # xs) =
     (if \<not> cond p then Loop_exit [] s p (x # xs)
      else case body s p of
             Spins \<Rightarrow> Loop_spins
           | Assert_failed cs \<Rightarrow> Loop_abort cs
           | Continue cs s' \<Rightarrow>
               (case pipe_loop cond body s' x xs of
                  Loop_spins \<Rightarrow> Loop_spins
                | Loop_abort cs' \<Rightarrow> Loop_abort (cs @ cs')
                | Loop_exit cs' s'' p' pipe' \<Rightarrow> Loop_exit (cs @ cs') s'' p' pipe'))"

definition pimaxp :: "tabs \<Rightarrow> nat \<Rightarrow> nat \<Rightarrow> nat \<Rightarrow> nat" where
  \<comment> \<open>Modelled from the spec: \<^verbatim>\<open>pimaxp\<close> is declared in \<^verbatim>\<open>cbrts.h\<close>, which is not in \<^verbatim>\<open>src/\<close>.
      The enumerator starts from it as "the max index" of a cached prime \<open>q \<le> x\<close> with
      \<open>d * q \<le> dmax\<close>; 0 when there is none.\<close>
  "pimaxp t x d dm =
     (case filter (\<lambda>i. cptab t ! i \<le> x \<and> d * cptab t ! i \<le> dm) (rev [1..<length (cptab t)]) of
        [] \<Rightarrow> 0
      | i # _ \<Rightarrow> i)"

text \<open>
  Lines 405 and 406: \<^verbatim>\<open>while ( pi <= cpcnt && cptab[pi] < p ) pi++\<close>, with \<^verbatim>\<open>cpcnt\<close> the last
  index of \<^verbatim>\<open>cptab\<close>.
\<close>

function cptab_scan :: "tabs \<Rightarrow> nat \<Rightarrow> nat \<Rightarrow> nat" where
  "cptab_scan t p i =
     (if i < length (cptab t) \<and> cptab t ! i < p then cptab_scan t p (Suc i) else i)"
  by pat_completeness auto
termination
  by (relation "measure (\<lambda>(t, p, i). length (cptab t) - i)") auto

text \<open>
  Line 407: \<^verbatim>\<open>for ( i=1, q=p ; (uint128_t)q*p <= dmax ; i++, q*= p )\<close>, the largest power of
  p that is needed. For \<open>p < 2\<close> the loop of the C code does not end.
\<close>

function max_power_loop :: "nat \<Rightarrow> nat \<Rightarrow> nat \<Rightarrow> nat \<Rightarrow> nat \<times> nat" where
  "max_power_loop p dm i q =
     (if 2 \<le> p \<and> 0 < q \<and> q * p \<le> dm then max_power_loop p dm (Suc i) (q * p) else (i, q))"
  by pat_completeness auto
termination
proof (relation "measure (\<lambda>(p, dm, i, q). Suc dm - q)")
  fix p dm i q :: nat
  assume h: "2 \<le> p \<and> 0 < q \<and> q * p \<le> dm"
  then have "q * 2 \<le> q * p" by simp
  then have "q < q * p" using h by linarith
  then have "Suc dm - q * p < Suc dm - q" using h by linarith
  then show "((p, dm, Suc i, q * p), p, dm, i, q) \<in> measure (\<lambda>(p, dm, i, q). Suc dm - q)"
    by simp
qed simp

definition max_power :: "nat \<Rightarrow> nat \<Rightarrow> (nat \<times> nat) option" where
  "max_power p dm = (if p < 2 then None else Some (max_power_loop p dm 1 p))"

text \<open>Line 413: \<^verbatim>\<open>for ( uint64_t pp=p ; pp < q ; pp*=p )\<close>, reached with \<open>p \<ge> 2\<close> only.\<close>

function powers_below :: "nat \<Rightarrow> nat \<Rightarrow> nat \<Rightarrow> nat list" where
  "powers_below p q pp =
     (if 2 \<le> p \<and> 0 < pp \<and> pp < q then pp # powers_below p q (pp * p) else [])"
  by pat_completeness auto
termination
proof (relation "measure (\<lambda>(p, q, pp). q - pp)")
  fix p q pp :: nat
  assume h: "2 \<le> p \<and> 0 < pp \<and> pp < q"
  then have "pp * 2 \<le> pp * p" by simp
  then have "pp < pp * p" using h by linarith
  then have "q - pp * p < q - pp" using h by linarith
  then show "((p, q, pp * p), p, q, pp) \<in> measure (\<lambda>(p, q, pp). q - pp)"
    by simp
qed simp

text \<open>Phase 1, lines 404 to 417. The state of the loop is the index \<^verbatim>\<open>pi\<close>.\<close>

definition cached_body :: "tabs \<Rightarrow> nat \<Rightarrow> nat \<Rightarrow> nat body_result" where
  "cached_body t pi0 p =
     (if \<not> report_p t p then Continue [] pi0
      else
        let pi = cptab_scan t p pi0 in
        if length (cptab t) \<le> pi \<or> cptab t ! pi > p then Continue [] pi
        else
          case max_power p (dmax t) of
            None \<Rightarrow> Spins
          | Some (i, q) \<Rightarrow>
              let z = (if cached_cuberoots_e t pi \<ge> i then cached_cuberoots_modq t pi i
                       else cuberoots_modq t p i);
                  n = length z
              in if n = 0 then Assert_failed []
                 else if \<not> report_c t n then Continue [] pi
                 else Continue
                   (concat (map (\<lambda>pp. [Call_prockd pp (map (\<lambda>x. x mod pp) z) n,
                                        Call_enumd pp p (map (\<lambda>x. x mod pp) z) n])
                                (powers_below p q p))
                    @ [Call_prockd q z n, Call_enumd q p z n]) pi)"

text \<open>Phases 2 and 3, lines 431 to 434 and 442 to 445.\<close>

definition uncached_body :: "tabs \<Rightarrow> unit \<Rightarrow> nat \<Rightarrow> unit body_result" where
  "uncached_body t u p =
     (if \<not> report_p t p then Continue [] ()
      else
        let z = cuberoots_modp t p; n = length z in
        if n = 0 \<or> \<not> report_c t n then Continue [] ()
        else Continue [Call_prockd p z n, Call_enumd p p z n] ())"

definition cocached_body :: "tabs \<Rightarrow> unit \<Rightarrow> nat \<Rightarrow> unit body_result" where
  "cocached_body t u p =
     (if \<not> report_p t p then Continue [] ()
      else
        let z = cuberoots_modp t p; n = length z in
        if n = 0 \<or> \<not> report_c t n then Continue [] ()
        else Continue [Call_prockd p z n, Call_enumcd p p z n] ())"

definition b32_crt64 :: "nat \<Rightarrow> nat \<Rightarrow> nat \<Rightarrow> nat \<Rightarrow> nat \<Rightarrow> nat" where
  \<comment> \<open>Modelled from the spec: \<^verbatim>\<open>b32_crt64\<close> is declared in \<^verbatim>\<open>b32.h\<close>, which is not in \<^verbatim>\<open>src/\<close>;
      it CRT-combines the residue \<open>a\<close> mod \<open>m\<close> with the residue \<open>b\<close> mod \<open>d\<close>, given the
      inverse \<open>minv\<close> of \<open>m\<close> mod \<open>d\<close>.\<close>
  "b32_crt64 a m b d minv = a + m * (((b + d - a mod d) * minv) mod d)"

text \<open>
  Phase 4, lines 455 to 465. The state is \<^verbatim>\<open>pimax\<close>; line 459 lowers it while
  \<^verbatim>\<open>p*sdtab[pimax].d > dmax\<close>, and line 460 walks the entries \<open>pimax, ..., 1\<close> of \<^verbatim>\<open>sdtab\<close>.
\<close>

fun sdtab_lower :: "tabs \<Rightarrow> nat \<Rightarrow> nat \<Rightarrow> nat" where
  "sdtab_lower t p 0 = 0"
| "sdtab_lower t p (Suc i) =
     (if p * sd_d (sdtab t ! Suc i) > dmax t then sdtab_lower t p i else Suc i)"

definition nearprime_roots :: "tabs \<Rightarrow> nat \<Rightarrow> nat list \<Rightarrow> sdrec \<Rightarrow> nat list" where
  "nearprime_roots t p z x =
     (let pinvb = sdinvs t ! (sd_i x + p mod sd_d x) in
      concat (map (\<lambda>zi. map (\<lambda>j. b32_crt64 zi p (sdroots t ! (sd_r x + j)) (sd_d x) pinvb)
                           [0..<sd_n x]) z))"

definition nearprime_body :: "tabs \<Rightarrow> nat \<Rightarrow> nat \<Rightarrow> nat body_result" where
  "nearprime_body t pimax0 p =
     (if \<not> report_p t p then Continue [] pimax0
      else
        let z = cuberoots_modp t p; n = length z in
        if n = 0 \<or> \<not> report_c t n then Continue [] pimax0
        else
          let pimax = sdtab_lower t p pimax0 in
          Continue
            (Call_prockd p z n #
             map (\<lambda>i. let x = sdtab t ! i; r = nearprime_roots t p z x
                      in Call_prockd ((p * sd_d x) mod 2 ^ 64) r (length r))
                 (rev [1..<Suc pimax]))
            pimax)"

text \<open>Phase 5, lines 473 to 476.\<close>

definition prime_body :: "tabs \<Rightarrow> unit \<Rightarrow> nat \<Rightarrow> unit body_result" where
  "prime_body t u p =
     (if \<not> report_p t p then Continue [] ()
      else
        let z = cuberoots_modp t p; n = length z in
        if n = 0 \<or> \<not> report_c t n then Continue [] ()
        else Continue [Call_dispatch (Procdcoprime p z n)] ())"

text \<open>
  Phase 6, lines 483 to 517. \<open>bigprime_l\<close> is the progression length for \<open>p\<close> and the
  modulus \<open>m\<close> (32-bit), \<open>bigprime_lpmax\<close> the largest \<open>p\<close> for which it stays valid; the
  state of the loop is \<open>(l, lpmax)\<close>, and in the two-track loop \<open>((l, lpmax), (l7, lpmax7))\<close>.
  As in the C code, \<^verbatim>\<open>lpmax7\<close> is computed from \<^verbatim>\<open>l\<close>, not from \<^verbatim>\<open>l7\<close>.
\<close>

definition bigprime_l :: "tabs \<Rightarrow> nat \<Rightarrow> nat \<Rightarrow> nat" where
  "bigprime_l t p m = fastceilboundl (zmaxld t) (p * m) mod 2 ^ 32"

definition bigprime_lpmax :: "tabs \<Rightarrow> nat \<Rightarrow> nat \<Rightarrow> nat \<Rightarrow> nat" where
  "bigprime_lpmax t pmax l m =
     (let l1 = (l + 2 ^ 32 - 1) mod 2 ^ 32 in
      if l1 * m * pmax > zmax128 t then fastceilboundl (zmaxld t) (m * l1) else pmax)"

definition bigprime_body :: "tabs \<Rightarrow> nat \<Rightarrow> nat \<times> nat \<Rightarrow> nat \<Rightarrow> (nat \<times> nat) body_result" where
  "bigprime_body t pmax s p =
     (if \<not> report_p t p then Continue [] s
      else
        let z = cuberoots_modp t p; n = length z in
        if n = 0 \<or> \<not> report_c t n then Continue [] s
        else
          let si = sgnz_index t p; mi = km1 t mod 2; m = km t ! mi;
              (l, lpmax) =
                (if p > snd s
                 then (bigprime_l t p m, bigprime_lpmax t pmax (bigprime_l t p m) m)
                 else s)
          in Continue [Call_dispatch (Procdbigprime p z n si mi l)] (l, lpmax))"

definition bigprime7_body ::
  "tabs \<Rightarrow> nat \<Rightarrow> (nat \<times> nat) \<times> (nat \<times> nat) \<Rightarrow> nat \<Rightarrow> ((nat \<times> nat) \<times> (nat \<times> nat)) body_result" where
  "bigprime7_body t pmax s p =
     (if \<not> report_p t p then Continue [] s
      else
        let z = cuberoots_modp t p; n = length z in
        if n = 0 \<or> \<not> report_c t n then Continue [] s
        else
          let si = sgnz_index t p; mi = km1 t mod 2; m = km t ! mi;
              mi7 = mi + 2; m7 = km t ! mi7;
              (l, lpmax) = fst s; (l7, lpmax7) = snd s
          in if onezmod7 t p si
             then
               let (l7', lpmax7') =
                     (if p > lpmax7 then (bigprime_l t p m7, bigprime_lpmax t pmax l m7)
                      else (l7, lpmax7))
               in Continue [Call_dispatch (Procdbigprime p z n si mi7 l7')]
                    ((l, lpmax), (l7', lpmax7'))
             else
               let (l', lpmax') =
                     (if p > lpmax
                      then (bigprime_l t p m, bigprime_lpmax t pmax (bigprime_l t p m) m)
                      else (l, lpmax))
               in Continue [Call_dispatch (Procdbigprime p z n si mi l')]
                    ((l', lpmax'), (l7, lpmax7)))"

text \<open>The label \<^verbatim>\<open>done\<close>, line 521: \<^verbatim>\<open>assert (p > pmax)\<close>.\<close>

definition finish :: "nat \<Rightarrow> pcall list \<Rightarrow> nat \<Rightarrow> run" where
  "finish pmax tr p = (if p > pmax then Returned tr else Aborted tr)"

text \<open>
  The end of a phase: what the loop produced, followed by the rest of the routine. The rest
  is given the calls made so far, the current \<open>p\<close> and the pipe.
\<close>

definition after_loop :: "pcall list \<Rightarrow> 's loop_result \<Rightarrow> (pcall list \<Rightarrow> nat \<Rightarrow> nat list \<Rightarrow> run) \<Rightarrow> run" where
  "after_loop tr r rest =
     (case r of
        Loop_spins \<Rightarrow> Diverges
      | Loop_abort cs \<Rightarrow> Aborted (tr @ cs)
      | Loop_exit cs s p pipe \<Rightarrow> rest (tr @ cs) p pipe)"

text \<open>Lines 483 to 518: phase 6 and its report.\<close>

definition from_bigprime :: "tabs \<Rightarrow> nat \<Rightarrow> pcall list \<Rightarrow> nat \<Rightarrow> nat list \<Rightarrow> run" where
  "from_bigprime t pmax tr p pipe =
     (let mi = km1 t mod 2; m = km t ! mi;
          l = bigprime_l t p m; lpmax = bigprime_lpmax t pmax l m;
          last_report = (\<lambda>tr' p' pipe'. finish pmax (tr' @ [Phase_report PHASE_BIGPRIME]) p')
      in if (K t * K t) mod 7 \<noteq> 4
         then after_loop tr (pipe_loop (\<lambda>p. p \<le> pmax) (bigprime_body t pmax) (l, lpmax) p pipe)
                last_report
         else
           let m7 = km t ! (mi + 2);
               l7 = bigprime_l t p m7; lpmax7 = bigprime_lpmax t pmax l m7
           in after_loop tr
                (pipe_loop (\<lambda>p. p \<le> pmax) (bigprime7_body t pmax) ((l, lpmax), (l7, lpmax7)) p pipe)
                last_report)"

text \<open>Lines 472 to 479: phase 5, its report (the answer is not read), and the test of p.\<close>

definition from_prime :: "tabs \<Rightarrow> nat \<Rightarrow> pcall list \<Rightarrow> nat \<Rightarrow> nat list \<Rightarrow> run" where
  "from_prime t pmax tr p pipe =
     after_loop tr (pipe_loop (\<lambda>p. p < bpmin t \<and> p \<le> pmax) (prime_body t) () p pipe)
       (\<lambda>tr' p' pipe'.
          let tr'' = tr' @ [Phase_report PHASE_PRIME] in
          if p' > pmax then finish pmax tr'' p' else from_bigprime t pmax tr'' p' pipe')"

text \<open>Lines 452 to 468: phase 4.\<close>

definition from_nearprime :: "tabs \<Rightarrow> nat \<Rightarrow> pcall list \<Rightarrow> nat \<Rightarrow> nat list \<Rightarrow> run" where
  "from_nearprime t pmax tr p pipe =
     after_loop tr
       (pipe_loop (\<lambda>p. p < pdmin t \<and> p \<le> pmax) (nearprime_body t) (length (sdtab t) - 1) p pipe)
       (\<lambda>tr' p' pipe'.
          let tr'' = tr' @ [Phase_report PHASE_NEARPRIME] in
          if p' > pmax then finish pmax tr'' p' else from_prime t pmax tr'' p' pipe')"

text \<open>Lines 441 to 448: phase 3.\<close>

definition from_cocached :: "tabs \<Rightarrow> nat \<Rightarrow> pcall list \<Rightarrow> nat \<Rightarrow> nat list \<Rightarrow> run" where
  "from_cocached t pmax tr p pipe =
     after_loop tr (pipe_loop (\<lambda>p. p < sdmin t \<and> p \<le> pmax) (cocached_body t) () p pipe)
       (\<lambda>tr' p' pipe'.
          let tr'' = tr' @ [Phase_report PHASE_COCACHED] in
          if p' > pmax then finish pmax tr'' p' else from_nearprime t pmax tr'' p' pipe')"

text \<open>
  Lines 425 to 437: the two asserts (\<^verbatim>\<open>p > sqrt(dmax)\<close> is taken over the reals,
  \<open>p\<^sup>2 > dmax\<close>), then phase 2.
\<close>

definition from_uncached :: "tabs \<Rightarrow> nat \<Rightarrow> pcall list \<Rightarrow> nat \<Rightarrow> nat list \<Rightarrow> run" where
  "from_uncached t pmax tr p pipe =
     (if \<not> p * p > dmax t then Aborted tr
      else if \<not> (3 * p) mod 2 ^ 64 > K t then Aborted tr
      else
        after_loop tr (pipe_loop (\<lambda>p. p < cdmin t \<and> p \<le> pmax) (uncached_body t) () p pipe)
          (\<lambda>tr' p' pipe'.
             let tr'' = tr' @ [Phase_report PHASE_UNCACHED] in
             if p' > pmax then finish pmax tr'' p' else from_cocached t pmax tr'' p' pipe'))"

text \<open>
  Lines 391 to 421: the first read of the pipe, phase 1, and the only report whose answer
  is read. \<open>pstart\<close> and \<open>pmax\<close> are \<^verbatim>\<open>pipe->start\<close> and \<^verbatim>\<open>pipe->end\<close>.
\<close>

definition process_primes :: "tabs \<Rightarrow> nat \<Rightarrow> nat \<Rightarrow> nat list \<Rightarrow> run" where
  "process_primes t pstart pmax pipe0 =
     (let (p, pipe) = primes_read_pipe pipe0 in
      if p > pmax then Returned []
      else
        after_loop []
          (if p \<le> cpmax t
           then pipe_loop (\<lambda>p. p \<le> cpmax t \<and> p \<le> pmax) (cached_body t)
                  (pimaxp t pstart 1 (dmax t)) p pipe
           else Loop_exit [] 0 p pipe)
          (\<lambda>tr p' pipe'.
             let tr' = tr @ [Phase_report PHASE_CACHED] in
             if \<not> report_phase t PHASE_CACHED then finish pmax tr' p'
             else if p' > pmax then finish pmax tr' p'
             else from_uncached t pmax tr' p' pipe'))"

text \<open>The calls of a run, its phase reports, and the calls made after the report of a phase.\<close>

fun trace_of :: "run \<Rightarrow> pcall list" where
  "trace_of (Returned tr) = tr"
| "trace_of (Aborted tr) = tr"
| "trace_of Diverges = []"

fun reported :: "pcall list \<Rightarrow> phase list" where
  "reported [] = []"
| "reported (Phase_report ph # cs) = ph # reported cs"
| "reported (c # cs) = reported cs"


definition all_phases :: "phase list" where
  "all_phases = [PHASE_CACHED, PHASE_UNCACHED, PHASE_COCACHED, PHASE_NEARPRIME, PHASE_PRIME,
                 PHASE_BIGPRIME]"

fun phase_id :: "phase \<Rightarrow> nat" where
  \<comment> \<open>Modelled from the spec: the phase ids are constants of \<^verbatim>\<open>report.h\<close>, which is not in
      \<^verbatim>\<open>src/\<close>; the spec orders them as the state machine runs through them.\<close>
  "phase_id PHASE_CACHED = 1"
| "phase_id PHASE_UNCACHED = 2"
| "phase_id PHASE_COCACHED = 3"
| "phase_id PHASE_NEARPRIME = 4"
| "phase_id PHASE_PRIME = 5"
| "phase_id PHASE_BIGPRIME = 6"

text \<open>A loop body is quiet when it never calls \<^verbatim>\<open>report_phase\<close>.\<close>

definition quiet :: "('s \<Rightarrow> nat \<Rightarrow> 's body_result) \<Rightarrow> bool" where
  "quiet body = (\<forall>s p. case body s p of Continue cs s' \<Rightarrow> reported cs = []
                        | Assert_failed cs \<Rightarrow> reported cs = [] | Spins \<Rightarrow> True)"

fun loop_calls :: "'s loop_result \<Rightarrow> pcall list" where
  "loop_calls (Loop_exit cs s p pipe) = cs"
| "loop_calls (Loop_abort cs) = cs"
| "loop_calls Loop_spins = []"

text \<open>
  A run reports the phases \<open>base\<close>, then some first phases of \<open>phs\<close>, in this order (or does
  not end).
\<close>

definition prefix_run :: "phase list \<Rightarrow> phase list \<Rightarrow> run \<Rightarrow> bool" where
  "prefix_run base phs r = (r = Diverges \<or> (\<exists>n. reported (trace_of r) = base @ take n phs))"

section \<open>zcubes.c: the d-enumerator\<close>

text \<open>
  \<^verbatim>\<open>enumcd\<close> and \<^verbatim>\<open>enumd\<close> are modelled by the list of their steps, in the order in which
  they make them: \<open>Prockd d roots n\<close> is a call of \<^verbatim>\<open>prockd\<close>, and \<open>Append d q\<close> records that
  the call of \<^verbatim>\<open>enumd\<close> for \<open>d\<close> stores the prime power \<open>q\<close> in its queue (line 276). The array
  \<^verbatim>\<open>zd\<close> with its length \<^verbatim>\<open>n\<close> is the list \<open>take n zd\<close> (the C code reads \<^verbatim>\<open>zd[0..n)\<close> whatever is
  there); the scratch buffer \<^verbatim>\<open>r\<close> is not modelled, each call carries the roots written
  to it.
\<close>

datatype event = Append nat nat | Prockd nat "nat list" nat

definition IBATCH :: nat where
  "IBATCH = 256"

definition m64_inv :: "nat \<Rightarrow> nat \<Rightarrow> nat" where
  \<comment> \<open>Modelled from the spec: the Montgomery routines \<^verbatim>\<open>m64_from_ui_R2\<close>, \<^verbatim>\<open>m64_inv_array\<close> and
      \<^verbatim>\<open>m64_to_ui\<close> are declared in \<^verbatim>\<open>m64.h\<close>, which is not in \<^verbatim>\<open>src/\<close>. Together they give, for
      each queued \<open>a\<close>, its inverse modulo \<open>d\<close> in \<open>[0,d)\<close> (0 when there is none).\<close>
  "m64_inv a d = (case List.find (\<lambda>x. (a * x) mod d = 1 mod d) [0..<d] of Some x \<Rightarrow> x | None \<Rightarrow> 0)"

definition fcrt64 :: "nat \<Rightarrow> nat \<Rightarrow> nat \<Rightarrow> nat \<Rightarrow> nat" where
  \<comment> \<open>Modelled from the spec: \<^verbatim>\<open>fcrt64\<close> is declared in \<^verbatim>\<open>m64.h\<close>, which is not in \<^verbatim>\<open>src/\<close>. It is
      called with \<open>u = a * (a\<^sup>-\<^sup>1 mod d) - 1\<close>, \<open>nza = a - za\<close>, a root \<open>zd\<close> mod \<open>d\<close> and
      \<open>ab = a * d\<close>, and CRT-combines \<open>za\<close> mod \<open>a\<close> with \<open>zd\<close> mod \<open>d\<close>: since \<open>u\<close> is 0 mod \<open>d\<close>
      and -1 mod \<open>a\<close>, the combination is \<open>zd + u * (zd + nza)\<close> mod \<open>ab\<close>.\<close>
  "fcrt64 u nza zd ab = (zd + u * (zd + nza)) mod ab"

text \<open>
  Lines 215 to 219 and 263 to 266: the roots mod \<open>a * d\<close> from the roots \<open>za\<close> mod \<open>a\<close> and the
  roots \<open>zd\<close> mod \<open>d\<close>; \<^verbatim>\<open>u\<close>, \<^verbatim>\<open>nza\<close> and \<^verbatim>\<open>ab\<close> are 64-bit.
\<close>

definition fcrt_roots :: "nat \<Rightarrow> nat \<Rightarrow> nat list \<Rightarrow> nat list \<Rightarrow> nat \<Rightarrow> nat list" where
  "fcrt_roots a d za zd n =
     (let u = (a * m64_inv a d + 2 ^ 64 - 1) mod 2 ^ 64;
          ab = (a * d) mod 2 ^ 64
      in concat (map (\<lambda>zaj. map (\<lambda>zdi. fcrt64 u ((a + 2 ^ 64 - zaj) mod 2 ^ 64) zdi ab) (take n zd))
                     za))"

subsection \<open>enumcd\<close>

definition cdentry :: "tabs \<Rightarrow> nat \<Rightarrow> nat \<Rightarrow> nat \<Rightarrow> nat option" where
  \<comment> \<open>Modelled from the spec: \<^verbatim>\<open>cdentry\<close> is declared in \<^verbatim>\<open>cbrts.h\<close>, which is not in \<^verbatim>\<open>src/\<close>. It
      gives the entry of the precomputed index of admissible cofactors that the walk starts
      from: the last one with largest prime at most \<open>pm\<close> and \<open>d * c \<le> dmax\<close>; no entry
      (\<open>NULL\<close>) when there is none.\<close>
  "cdentry t pm d dm =
     (case filter (\<lambda>i. cd_p (cdtab t ! i) \<le> pm \<and> d * cd_d (cdtab t ! i) \<le> dm)
                  (rev [1..<length (cdtab t)]) of
        [] \<Rightarrow> None
      | i # _ \<Rightarrow> Some i)"

text \<open>Line 238: \<^verbatim>\<open>for ( x-- ; x->p >= p ; x-- )\<close> is \<open>cd_down t p (x - 1)\<close>.\<close>

fun cd_down :: "tabs \<Rightarrow> nat \<Rightarrow> nat \<Rightarrow> nat" where
  "cd_down t p 0 = 0"
| "cd_down t p (Suc i) = (if cd_p (cdtab t ! Suc i) \<ge> p then cd_down t p i else Suc i)"

text \<open>Lines 214 to 221: the batch of queued cofactors, with their roots in \<^verbatim>\<open>cdroots\<close>.\<close>

definition enumcd_batch :: "tabs \<Rightarrow> nat \<Rightarrow> nat list \<Rightarrow> nat \<Rightarrow> nat list \<Rightarrow> event list" where
  "enumcd_batch t d zd n queue =
     map (\<lambda>i. let x = cdtab t ! i; a = cd_d x;
                  za = map (\<lambda>j. cdroots t ! (cd_r x + j)) [0..<cd_n x];
                  r = fcrt_roots a d za zd n
              in Prockd ((a * d) mod 2 ^ 64) r (length r))
         queue"

text \<open>Lines 228 to 233: a cofactor that is in \<^verbatim>\<open>sdtab\<close>.\<close>

definition enumcd_small :: "tabs \<Rightarrow> nat \<Rightarrow> nat list \<Rightarrow> nat \<Rightarrow> cdrec \<Rightarrow> event" where
  "enumcd_small t d zd n x =
     (let y = sdtab t ! cd_sdpi x;
          dinvsd = sdinvs t ! (sd_i y + d mod sd_d y);
          r = concat (map (\<lambda>zdi. map (\<lambda>j. b32_crt64 zdi d (sdroots t ! (sd_r y + j)) (sd_d y) dinvsd)
                                      [0..<cd_n x])
                          (take n zd))
      in Prockd ((d * sd_d y) mod 2 ^ 64) r (length r))"

text \<open>
  How an enumeration stops: it returns, the fuel of the model runs out (see \<open>enumd\<close>
  below), or a batch has to be inverted with Montgomery constants that line 207 set to 0
  (\<open>d \<ge> sdmin\<close>), which the model does not follow further. The calls made before the stop
  are kept, so that the result for a fuel is an initial part of the run.
\<close>

datatype stop = Finished | Fuel_out | No_inverse

type_synonym enum_result = "event list \<times> stop"

definition emit :: "event list \<Rightarrow> enum_result \<Rightarrow> enum_result" where
  "emit cs r = (cs @ fst r, snd r)"

definition and_then :: "enum_result \<Rightarrow> enum_result \<Rightarrow> enum_result" where
  "and_then r1 r2 = (if snd r1 = Finished then emit (fst r1) r2 else r1)"

text \<open>
  Lines 209 to 239. \<open>x\<close> is the index of the current entry and \<open>queue\<close> holds the indices
  of the \<open>m\<close> entries in \<^verbatim>\<open>z[0..m)\<close>. The walk ends at the entry with \<open>d = 0\<close>; the model also
  ends it at index 0.
\<close>

function enumcd_loop ::
  "tabs \<Rightarrow> nat \<Rightarrow> nat \<Rightarrow> nat list \<Rightarrow> nat \<Rightarrow> nat \<Rightarrow> nat list \<Rightarrow> enum_result" where
  "enumcd_loop t d p zd n x queue =
     (let at_end = (x = 0 \<or> cd_d (cdtab t ! x) = 0) in
      if at_end \<or> length queue = IBATCH
      then
        if queue = [] then ([], Finished)
        else if sdmin t \<le> d then ([], No_inverse)
        else if at_end then (enumcd_batch t d zd n queue, Finished)
        else
          emit (enumcd_batch t d zd n queue)
            (if cd_d (cdtab t ! x) \<le> sdmax t
             then emit [enumcd_small t d zd n (cdtab t ! x)]
                    (enumcd_loop t d p zd n (cd_down t p (x - 1)) [])
             else enumcd_loop t d p zd n (cd_down t p (x - 1)) [x])
      else if cd_d (cdtab t ! x) \<le> sdmax t
        then emit [enumcd_small t d zd n (cdtab t ! x)]
               (enumcd_loop t d p zd n (cd_down t p (x - 1)) queue)
        else enumcd_loop t d p zd n (cd_down t p (x - 1)) (queue @ [x]))"
  by pat_completeness auto

termination
proof -
  have le: "cd_down t p i \<le> i" for t p i
    by (induction i) auto
  have less: "cd_down t p (x - Suc 0) < x" if "0 < x" for t p x
    using le [of t p "x - Suc 0"] that by linarith
  show ?thesis
    by (relation "measure (\<lambda>(t, d, p, zd, n, x, queue). x)") (auto simp: less)
qed

text \<open>Lines 193 to 203: \<^verbatim>\<open>enumcd\<close> returns at once when \<^verbatim>\<open>cdentry\<close> finds no entry.\<close>

definition enumcd :: "tabs \<Rightarrow> nat \<Rightarrow> nat \<Rightarrow> nat list \<Rightarrow> nat \<Rightarrow> enum_result" where
  "enumcd t d p zd n =
     (case cdentry t ((p + 2 ^ 64 - 1) mod 2 ^ 64) d (dmax t) of
        None \<Rightarrow> ([], Finished)
      | Some x \<Rightarrow> enumcd_loop t d p zd n x [])"

subsection \<open>enumd\<close>

text \<open>
  Lines 276 to 279: after the prime power \<open>q\<close> (of the prime with index \<open>pi\<close>, with
  exponent \<open>e\<close>) has been queued, the next one: the next power of the same prime, or the
  next smaller prime when \<open>d * q\<close> is above dmax. \<^verbatim>\<open>q\<close> is 64-bit, the product
  \<^verbatim>\<open>(uint128_t)d*q\<close> cannot wrap.
\<close>

definition enumd_next :: "tabs \<Rightarrow> nat \<Rightarrow> nat \<times> nat \<times> nat \<Rightarrow> nat \<times> nat \<times> nat" where
  "enumd_next t d s =
     (case s of (q, pi, e) \<Rightarrow>
        let q' = (q * cptab t ! pi) mod 2 ^ 64 in
        if d * q' > dmax t then (cptab t ! (pi - 1), pi - 1, 1) else (q', pi, e + 1))"

text \<open>
  Lines 244 to 281. The recursion of \<^verbatim>\<open>enumd\<close> and its loop are bounded by a fuel, the first
  argument; when it runs out the enumeration stops with \<open>Fuel_out\<close>. The state of the loop
  is \<open>(q, pi, e)\<close> and the queue \<^verbatim>\<open>qq\<close>, \<^verbatim>\<open>qpi\<close>, \<^verbatim>\<open>qe\<close> of length \<open>m\<close>; \<open>enumd_flush\<close> is the
  loop of lines 262 to 270 over the queue: the roots of line 266, the call of \<^verbatim>\<open>prockd\<close>
  and the recursion.
\<close>

function enumd :: "nat \<Rightarrow> tabs \<Rightarrow> nat \<Rightarrow> nat \<Rightarrow> nat list \<Rightarrow> nat \<Rightarrow> enum_result"
and enumd_loop ::
  "nat \<Rightarrow> tabs \<Rightarrow> nat \<Rightarrow> nat list \<Rightarrow> nat \<Rightarrow> nat \<times> nat \<times> nat \<Rightarrow> (nat \<times> nat \<times> nat) list
     \<Rightarrow> enum_result"
and enumd_flush ::
  "nat \<Rightarrow> tabs \<Rightarrow> nat \<Rightarrow> nat list \<Rightarrow> nat \<Rightarrow> (nat \<times> nat \<times> nat) list \<Rightarrow> enum_result"
where
  "enumd 0 t d p zd n = ([], Fuel_out)"
| "enumd (Suc f) t d p zd n =
     (if d \<ge> cdmin t then enumcd t d p zd n
      else
        let pi = pimaxp t ((p + 2 ^ 64 - 1) mod 2 ^ 64) d (dmax t) in
        if pi = 0 then ([], Finished)
        else enumd_loop f t d zd n (cptab t ! pi, pi, 1) [])"
| "enumd_loop 0 t d zd n s queue = ([], Fuel_out)"
| "enumd_loop (Suc f) t d zd n s queue =
     (if fst (snd s) = 0 \<or> length queue = IBATCH
      then
        if queue = [] then ([], Finished)
        else
          and_then (enumd_flush f t d zd n queue)
            (if fst (snd s) = 0 then ([], Finished)
             else emit [Append d (fst s)] (enumd_loop f t d zd n (enumd_next t d s) [s]))
      else emit [Append d (fst s)] (enumd_loop f t d zd n (enumd_next t d s) (queue @ [s])))"
| "enumd_flush 0 t d zd n queue = ([], Fuel_out)"
| "enumd_flush (Suc f) t d zd n [] = ([], Finished)"
| "enumd_flush (Suc f) t d zd n ((a, pi, e) # queue) =
     (let ab = (a * d) mod 2 ^ 64;
          r = fcrt_roots a d (cached_cuberoots_modq t pi e) zd n;
          cnt = length r
      in emit [Prockd ab r cnt]
           (and_then
              (if ab \<ge> cdmin t then enumcd t ab (cptab t ! pi) r cnt
               else enumd f t ab (cptab t ! pi) r cnt)
              (enumd_flush (Suc f) t d zd n queue)))"
  by pat_completeness auto
termination
  by (relation "inv_image (less_than <*lex*> less_than <*lex*> less_than)
        (\<lambda>x. case x of
           Inl (f, t, d, p, zd, n) \<Rightarrow> (f, 0, 0)
         | Inr (Inl (f, t, d, zd, n, s, queue)) \<Rightarrow> (f, 0, 0)
         | Inr (Inr (f, t, d, zd, n, queue)) \<Rightarrow> (f, Suc 0, length queue))")
     auto

subsection \<open>Well-formed tables and the bound on d\<close>

text \<open>
  \<^verbatim>\<open>cptab\<close> holds the cached primes in increasing order from index 1 (index 0 is the entry
  at which the loop of \<^verbatim>\<open>enumd\<close> stops). \<^verbatim>\<open>cdtab\<close> holds the cofactors in increasing order of
  \<open>d\<close> from index 1, and a cofactor \<open>d \<le> sdmax\<close> points to its own entry of \<^verbatim>\<open>sdtab\<close> (the
  \<^verbatim>\<open>softassert\<close> of line 230).
\<close>

definition cptab_ok :: "tabs \<Rightarrow> bool" where
  "cptab_ok t =
     (list_all (\<lambda>q. 2 \<le> q) (tl (cptab t)) \<and> sorted_wrt (\<lambda>x y. x < y) (tl (cptab t)))"

definition cdtab_ok :: "tabs \<Rightarrow> bool" where
  "cdtab_ok t =
     (sorted_wrt (\<lambda>x y. cd_d x \<le> cd_d y) (tl (cdtab t)) \<and>
      list_all (\<lambda>x. cd_d x \<le> sdmax t \<longrightarrow> sd_d (sdtab t ! cd_sdpi x) = cd_d x) (tl (cdtab t)))"

text \<open>A step stays within the bound: \<open>d * q \<le> dmax\<close> for a stored \<open>q\<close>, \<open>d \<le> dmax\<close> for a call.\<close>

fun within :: "nat \<Rightarrow> event \<Rightarrow> bool" where
  "within dm (Append d q) = (d * q \<le> dm)"
| "within dm (Prockd d r n) = (d \<le> dm)"

text \<open>
  The invariant of the loop of \<^verbatim>\<open>enumd\<close> for a state \<open>(q, pi, e)\<close>: unless \<open>pi = 0\<close>, \<open>q\<close> is
  the power \<open>e \<ge> 1\<close> of the prime \<^verbatim>\<open>cptab[pi]\<close>, which is at most \<open>d\<close>, and \<open>d * q \<le> dmax\<close> (the
  \<^verbatim>\<open>softassert\<close> of line 274); and the same for a queued entry.
\<close>

definition loop_inv :: "tabs \<Rightarrow> nat \<Rightarrow> nat \<times> nat \<times> nat \<Rightarrow> bool" where
  "loop_inv t d s =
     (case s of (q, pi, e) \<Rightarrow>
        pi < length (cptab t) \<and>
        (0 < pi \<longrightarrow> q = cptab t ! pi ^ e \<and> 1 \<le> e \<and> cptab t ! pi \<le> d \<and> d * q \<le> dmax t))"

definition item_inv :: "tabs \<Rightarrow> nat \<Rightarrow> nat \<times> nat \<times> nat \<Rightarrow> bool" where
  "item_inv t d s =
     (case s of (q, pi, e) \<Rightarrow>
        0 < pi \<and> pi < length (cptab t) \<and> q = cptab t ! pi ^ e \<and> 1 \<le> e \<and>
        cptab t ! pi \<le> d \<and> d * q \<le> dmax t)"

subsection \<open>Cube roots and their number\<close>










section \<open>Proofs: the supervisor's argument validation\<close>

declare ui128_len.simps [simp del]

lemma ld_of_u128_small [simp]: "x < 2 ^ 64 \<Longrightarrow> ld_of_u128 x = x"
  by (simp add: ld_of_u128_def)

lemma zmaxld_of_small:
  assumes "zmax < 2 ^ 62"
  shows "zmaxld_of zmax = zmax + 1"
proof -
  have a: "zmax div 2 ^ 62 = 0" using assms by simp
  have "zmax + 1 < (2::nat) ^ 64" using assms by simp
  moreover have "zmax + 1 < (2::nat) ^ 128" using assms by simp
  ultimately show ?thesis unfolding zmaxld_of_def a by simp
qed

lemmas main_defs = main_def main_cores_def main_range_def main_p0_def main_bounds_def
  goodk_def zmaxld_of_def u32_def u64_def Let_def

lemma ui128_len_1e12: "ui128_len 1000000000000 = 40"
  by (simp add: ui128_len.simps)

lemma main_cmd1: "main env0 cmd1 = ([], Launch \<lparr>l_cores = 1, l_p0 = 1, l_pmin = 2, l_pmax = 100, l_opts = 0,
      l_path = Process_primes\<rparr>)"
  by (simp add: main_defs env0_def cmd1_def ui128_len_1e12)

text \<open>
  Claim C10, as amended. \<^verbatim>\<open>main\<close> tests \<^verbatim>\<open>argc < 7\<close>, and \<^verbatim>\<open>argc\<close> counts the program's name:
  with fewer than 6 positional arguments \<^verbatim>\<open>main\<close> prints the usage banner to \<^verbatim>\<open>stderr\<close> and
  returns 0, and nothing else happens.
\<close>

theorem main_usage: "positional_args c < 6 \<Longrightarrow> main env c = ([Usage], Exit 0)"
proof -
  assume "positional_args c < 6"
  then have "argc c < 7" by (simp add: positional_args_def)
  then show ?thesis by (simp add: main_def main_cores_def)
qed

text \<open>Witness for C10: five positional arguments.\<close>

theorem main_usage_witness:
  "positional_args (cmd1\<lparr>argc := 6\<rparr>) < 6 \<and> main env0 (cmd1\<lparr>argc := 6\<rparr>) = ([Usage], Exit 0)"
  using main_usage [of "cmd1\<lparr>argc := 6\<rparr>" env0] by (simp add: positional_args_def cmd1_def)

text \<open>
  Counterexample to C10 as stated ("fewer than 7 positional arguments"): with the six
  positional arguments \<^verbatim>\<open>1 33 2 100 10000 1000000000000\<close> there are fewer than 7 of them,
  and \<^verbatim>\<open>main\<close> does not print the usage banner: it validates the arguments and launches
  the worker.
\<close>

theorem main_six_args_counterexample:
  "positional_args cmd1 < 7 \<and> main env0 cmd1 \<noteq> ([Usage], Exit 0)
   \<and> snd (main env0 cmd1) = Launch \<lparr>l_cores = 1, l_p0 = 1, l_pmin = 2, l_pmax = 100, l_opts = 0,
      l_path = Process_primes\<rparr>"
  by (simp add: main_cmd1) (simp add: positional_args_def cmd1_def)

lemma next_prime_iff: "1 < p \<Longrightarrow> (primes_next_prime (p - 1) = p) = is_prime p"
proof -
  assume p: "1 < p"
  then obtain q where q: "p = Suc q" by (cases p) auto
  have l: "[Suc q..<2 * q + 3] = Suc q # [Suc (Suc q)..<2 * q + 3]"
    by (simp add: upt_conv_Cons)
  show ?thesis
  proof (cases "is_prime p")
    case True
    then show ?thesis by (simp add: primes_next_prime_def l q)
  next
    case False
    have "primes_next_prime (p - 1) \<noteq> p"
    proof (cases "List.find is_prime [Suc (Suc q)..<2 * q + 3]")
      case None
      then show ?thesis using False by (simp add: primes_next_prime_def l q)
    next
      case (Some y)
      then have "is_prime y" by (auto simp: find_Some_iff)
      then have "y \<noteq> p" using False by auto
      then show ?thesis using False Some by (simp add: primes_next_prime_def l q)
    qed
    then show ?thesis using False by simp
  qed
qed

lemma main_cores_Inl: "main_cores env c = Inl (m, out) \<Longrightarrow> out \<noteq> Launch l"
  by (auto simp: main_cores_def Let_def split: if_splits prod.splits)

lemma main_range_Inl: "main_range env c cores = Inl (m, out) \<Longrightarrow> out \<noteq> Launch l"
  by (auto simp: main_range_def Let_def split: if_splits prange.splits)

lemma main_p0_Inl: "main_p0 c p0 pmin pmax = Inl (m, out) \<Longrightarrow> out \<noteq> Launch l"
  by (auto simp: main_p0_def Let_def split: if_splits)

lemma main_bounds_Inl: "main_bounds env c p0 pmin pmax = Inl (m, out) \<Longrightarrow> out \<noteq> Launch l"
  by (auto simp: main_bounds_def Let_def split: if_splits prod.splits)

lemma main_LaunchD:
  assumes "main env c = (ms, Launch l)"
  shows "\<exists>m1 cores m2 p0 pmin0 pmax m3 pmin m4 opts.
           main_cores env c = Inr (m1, cores) \<and>
           main_range env c cores = Inr (m2, (p0, pmin0, pmax)) \<and>
           main_p0 c p0 pmin0 pmax = Inr (m3, pmin) \<and>
           main_bounds env c p0 pmin pmax = Inr (m4, opts) \<and>
           ms = m1 @ m2 @ m3 @ m4 \<and>
           l = \<lparr>l_cores = cores, l_p0 = p0, l_pmin = pmin, l_pmax = pmax, l_opts = opts,
                 l_path = (if p0 > 1 then Process_subprimes else Process_primes)\<rparr>"
proof (cases "main_cores env c")
  case (Inl r)
  then show ?thesis using assms main_cores_Inl [of env c ms "Launch l" l]
    by (simp add: main_def)
next
  case a: (Inr r1)
  obtain m1 cores where r1: "r1 = (m1, cores)" by (cases r1)
  show ?thesis
  proof (cases "main_range env c cores")
    case (Inl r)
    then show ?thesis using assms a r1 main_range_Inl [of env c cores _ "Launch l" l]
      by (auto simp: main_def split: prod.splits)
  next
    case b: (Inr r2)
    obtain m2 p0 pmin0 pmax where r2: "r2 = (m2, (p0, pmin0, pmax))" by (cases r2) auto
    show ?thesis
    proof (cases "main_p0 c p0 pmin0 pmax")
      case (Inl r)
      then show ?thesis using assms a r1 b r2 main_p0_Inl [of c p0 pmin0 pmax _ "Launch l" l]
        by (auto simp: main_def split: prod.splits)
    next
      case c: (Inr r3)
      obtain m3 pmin where r3: "r3 = (m3, pmin)" by (cases r3)
      show ?thesis
      proof (cases "main_bounds env c p0 pmin pmax")
        case (Inl r)
        then show ?thesis
          using assms a r1 b r2 c r3 main_bounds_Inl [of env c p0 pmin pmax _ "Launch l" l]
          by (auto simp: main_def split: prod.splits)
      next
        case d: (Inr r4)
        obtain m4 opts where r4: "r4 = (m4, opts)" by (cases r4)
        have "l = \<lparr>l_cores = cores, l_p0 = p0, l_pmin = pmin, l_pmax = pmax, l_opts = opts,
                 l_path = (if p0 > 1 then Process_subprimes else Process_primes)\<rparr>
              \<and> ms = m1 @ m2 @ m3 @ m4"
          using assms a r1 b r2 c r3 d r4
          by (simp add: main_def Let_def split: if_splits)
        then show ?thesis using a r1 b r2 c r3 d r4 by blast
      qed
    qed
  qed
qed

lemma main_cores_cases:
  assumes "7 \<le> argc c" "0 \<le> cores_arg c"
  shows "(\<exists>m. main_cores env c = Inl (m, Exit (- 1))) \<or> (\<exists>m cores. main_cores env c = Inr (m, cores))"
  using assms by (auto simp: main_cores_def Let_def split: prod.splits)

text \<open>
  Claim C7, as amended. With \<^verbatim>\<open>pmin = pmax = p\<close> given as plain integers, whenever \<^verbatim>\<open>main\<close>
  gets as far as forking its workers, they run \<^verbatim>\<open>process_subprimes\<close> (with \<open>p0 = p\<close>) exactly
  when there is more than one worker, \<open>p\<^sup>2 \<le> dmax\<close> and \<open>p > 1\<close>; with a single worker they
  run \<^verbatim>\<open>process_primes\<close> with \<open>p0 = 1\<close>. With \<^verbatim>\<open>pmin > pmax\<close> (plain integers, at least six
  positional arguments, a number of cores that is not negative) \<^verbatim>\<open>main\<close> exits with -1.
\<close>

theorem main_single_prime_path:
  "(range_arg c = Plain p p \<and> dmax_arg c < 2 ^ 64 \<and> main env c = (ms, Launch l) \<longrightarrow>
      l_path l = (if 1 < l_cores l \<and> p * p \<le> dmax_arg c \<and> 1 < p
                  then Process_subprimes else Process_primes)
      \<and> l_p0 l = (if 1 < l_cores l \<and> p * p \<le> dmax_arg c then p else 1))
   \<and> (range_arg c = Plain a b \<and> b < a \<and> 7 \<le> argc c \<and> 0 \<le> cores_arg c \<longrightarrow>
        snd (main env c) = Exit (- 1))"
proof (rule conjI; rule impI)
  assume h: "range_arg c = Plain p p \<and> dmax_arg c < 2 ^ 64 \<and> main env c = (ms, Launch l)"
  then obtain m1 cores m2 p0 pmin0 pmax where
    r: "main_range env c cores = Inr (m2, (p0, pmin0, pmax))" and
    l: "l_cores l = cores" "l_p0 l = p0"
       "l_path l = (if p0 > 1 then Process_subprimes else Process_primes)"
    using main_LaunchD [of env c ms l] by auto
  have small: "p * p \<le> dmax_arg c \<Longrightarrow> p mod 2 ^ 32 = p"
  proof -
    assume "p * p \<le> dmax_arg c"
    then have "p * p < 2 ^ 32 * 2 ^ 32" using h by simp
    then have "p < 2 ^ 32" by (meson mult_le_mono not_le)
    then show ?thesis by simp
  qed
  from r h have "p0 = (if 1 < cores \<and> p * p \<le> dmax_arg c then p else 1)"
    using small by (auto simp: main_range_def split: if_splits)
  then show "l_path l = (if 1 < l_cores l \<and> p * p \<le> dmax_arg c \<and> 1 < p
                  then Process_subprimes else Process_primes)
      \<and> l_p0 l = (if 1 < l_cores l \<and> p * p \<le> dmax_arg c then p else 1)"
    using l by auto
next
  assume h: "range_arg c = Plain a b \<and> b < a \<and> 7 \<le> argc c \<and> 0 \<le> cores_arg c"
  from main_cores_cases [of c env] h consider
    m where "main_cores env c = Inl (m, Exit (- 1))" |
    m cores where "main_cores env c = Inr (m, cores)" by blast
  then show "snd (main env c) = Exit (- 1)"
  proof cases
    case 1
    then show ?thesis by (simp add: main_def)
  next
    case 2
    have r: "main_range env c cores = Inr ([], (1, a, b))"
      using h by (simp add: main_range_def)
    have "\<exists>m. main_p0 c 1 a b = Inl (m, Exit (- 1))"
      using h by (simp add: main_p0_def Let_def)
    then show ?thesis using 2 r by (auto simp: main_def)
  qed
qed

lemma is_prime_5: "is_prime 5"
  by (simp add: is_prime_def upt_rec)

lemma main_cmd5: "main env0 cmd5 = ([], Launch \<lparr>l_cores = 2, l_p0 = 5, l_pmin = 2, l_pmax = 5, l_opts = 0,
      l_path = Process_subprimes\<rparr>)"
  using next_prime_iff [of 5] is_prime_5
  by (simp add: main_defs env0_def cmd5_def ui128_len_1e12 has_cuberoots_modp_def)

text \<open>
  Witness for C7: \<^verbatim>\<open>zcubes 2 33 5 5 10000 1000000000000\<close> launches two workers on
  \<^verbatim>\<open>process_subprimes\<close> with \<open>p0 = 5\<close>, and \<^verbatim>\<open>zcubes 2 33 7 5 ...\<close> exits with -1.
\<close>

theorem main_single_prime_path_witness:
  "range_arg cmd5 = Plain 5 5 \<and>
   main env0 cmd5 = ([], Launch \<lparr>l_cores = 2, l_p0 = 5, l_pmin = 2, l_pmax = 5, l_opts = 0,
      l_path = Process_subprimes\<rparr>) \<and>
   l_path \<lparr>l_cores = 2, l_p0 = 5, l_pmin = 2, l_pmax = 5, l_opts = 0, l_path = Process_subprimes\<rparr>
     = Process_subprimes
   \<and> snd (main env0 (cmd5\<lparr>range_arg := Plain 7 5\<rparr>)) = Exit (- 1)"
  using main_single_prime_path [of cmd5 5 env0 "[]"
      "\<lparr>l_cores = 2, l_p0 = 5, l_pmin = 2, l_pmax = 5, l_opts = 0, l_path = Process_subprimes\<rparr>"]
    main_single_prime_path [of "cmd5\<lparr>range_arg := Plain 7 5\<rparr>" _ env0 _ _ 7 5] main_cmd5
  by (simp add: cmd5_def)

text \<open>
  Counterexample to C7 as stated: \<^verbatim>\<open>zcubes 1 33 5 5 10000 1000000000000\<close> has
  \<^verbatim>\<open>pmin = pmax = 5\<close>, a prime with \<open>5\<^sup>2 \<le> dmax\<close>, but one worker only: line 559 asks for
  \<^verbatim>\<open>cores > 1\<close>, so \<open>p0 = 1\<close> and the worker runs \<^verbatim>\<open>process_primes\<close>.
\<close>

theorem main_single_core_counterexample:
  "range_arg (cmd5\<lparr>cores_arg := 1\<rparr>) = Plain 5 5 \<and> is_prime 5 \<and> 5 * 5 \<le> dmax_arg (cmd5\<lparr>cores_arg := 1\<rparr>)
   \<and> main env0 (cmd5\<lparr>cores_arg := 1\<rparr>) =
       ([], Launch \<lparr>l_cores = 1, l_p0 = 1, l_pmin = 5, l_pmax = 5, l_opts = 0, l_path = Process_primes\<rparr>)"
  using is_prime_5
  by (simp add: main_defs env0_def cmd5_def ui128_len_1e12)

lemma main_cores_msgs:
  "main_cores env c = Inr (m, cores) \<Longrightarrow> set m \<subseteq> {Warn_profiling_cores, Warn_cores_exceed}"
  by (auto simp: main_cores_def Let_def split: if_splits prod.splits)

lemma main_bounds_msgs:
  "main_bounds env c p0 pmin pmax = Inr (m, opts) \<Longrightarrow> set m \<subseteq> {Warn_ignoring_opts, Warn_zmin}"
  by (auto simp: main_bounds_def Let_def split: if_splits prod.splits)

text \<open>
  Claim C8, as amended. In the form \<^verbatim>\<open>P0xQ\<close>, a \<open>P0\<close> that divides k is an argument error:
  \<^verbatim>\<open>main\<close> exits with -1. A \<open>P0\<close> that is not prime, or a k without cube roots mod a
  \<open>P0 \<equiv> 1 (mod 3)\<close>, is not: when the other checks pass (the second block of hypotheses,
  which mentions neither primality nor cube roots), the workers are launched on
  \<^verbatim>\<open>process_subprimes\<close>, and the only trace is a warning on \<^verbatim>\<open>stderr\<close>.
\<close>

theorem main_pinned_p0:
  "(range_arg c = Pinned same a q r \<and> 7 \<le> argc c \<and> 0 \<le> cores_arg c
      \<and> nat (k_arg c) mod u32 a = 0 \<longrightarrow> snd (main env c) = Exit (- 1))
   \<and> (range_arg c = Pinned True a q r \<and> main_cores env c = Inr (m1, cores)
       \<and> 2 \<le> u32 a \<and> u64 r \<le> u32 a \<and> \<not> profiling env \<and> (argc c \<le> 7 \<or> opts_arg c = 0)
       \<and> nat (k_arg c) mod u32 a \<noteq> 0 \<and> max 2 (u64 q) \<le> u64 r
       \<and> main_bounds env c (u32 a) (max 2 (u64 q)) (u64 r) = Inr (m4, opts)
       \<and> report_precompute env \<longrightarrow>
       (\<exists>ms. main env c =
               (ms, Launch \<lparr>l_cores = cores, l_p0 = u32 a, l_pmin = max 2 (u64 q),
                             l_pmax = u64 r, l_opts = opts, l_path = Process_subprimes\<rparr>)
          \<and> (Warn_p0_not_prime \<in> set ms \<longleftrightarrow> \<not> is_prime (u32 a))
          \<and> (Warn_no_cuberoots \<in> set ms \<longleftrightarrow>
                u32 a mod 3 = 1 \<and> \<not> has_cuberoots_modp (nat (k_arg c)) (u32 a))))"
proof (rule conjI; rule impI)
  assume h: "range_arg c = Pinned same a q r \<and> 7 \<le> argc c \<and> 0 \<le> cores_arg c
      \<and> nat (k_arg c) mod u32 a = 0"
  from main_cores_cases [of c env] h consider
    m where "main_cores env c = Inl (m, Exit (- 1))" |
    m cores where "main_cores env c = Inr (m, cores)" by blast
  then show "snd (main env c) = Exit (- 1)"
  proof cases
    case 1
    then show ?thesis by (simp add: main_def)
  next
    case 2
    show ?thesis
    proof (cases "main_range env c cores")
      case (Inl x)
      then have "snd x = Exit (- 1)"
        using h by (auto simp: main_range_def Let_def split: if_splits)
      then show ?thesis using 2 Inl by (cases x) (simp add: main_def)
    next
      case (Inr y)
      then have y: "y = ([], (u32 a, u64 q, u64 r))" and big: "2 \<le> u32 a"
        using h by (auto simp: main_range_def Let_def split: if_splits)
      have "\<exists>m. main_p0 c (u32 a) (u64 q) (u64 r) = Inl (m, Exit (- 1))"
        using h big by (simp add: main_p0_def Let_def)
      then show ?thesis using 2 Inr y by (auto simp: main_def)
    qed
  qed
next
  assume h: "range_arg c = Pinned True a q r \<and> main_cores env c = Inr (m1, cores)
       \<and> 2 \<le> u32 a \<and> u64 r \<le> u32 a \<and> \<not> profiling env \<and> (argc c \<le> 7 \<or> opts_arg c = 0)
       \<and> nat (k_arg c) mod u32 a \<noteq> 0 \<and> max 2 (u64 q) \<le> u64 r
       \<and> main_bounds env c (u32 a) (max 2 (u64 q)) (u64 r) = Inr (m4, opts)
       \<and> report_precompute env"
  define m3 where "m3 =
     (if \<not> is_prime (u32 a) then [Warn_p0_not_prime] else []) @
     (if u32 a mod 3 = 1 \<and> \<not> has_cuberoots_modp (nat (k_arg c)) (u32 a)
      then [Warn_no_cuberoots] else [])"
  have r: "main_range env c cores = Inr ([], (u32 a, u64 q, u64 r))"
    using h by (auto simp: main_range_def Let_def)
  have np: "(primes_next_prime (u32 a - 1) \<noteq> u32 a) = (\<not> is_prime (u32 a))"
    using h next_prime_iff [of "u32 a"] by simp
  have p: "main_p0 c (u32 a) (u64 q) (u64 r) = Inr (m3, max 2 (u64 q))"
    using h np by (auto simp: main_p0_def Let_def m3_def max_def)
  have m: "main env c =
               (m1 @ m3 @ m4, Launch \<lparr>l_cores = cores, l_p0 = u32 a, l_pmin = max 2 (u64 q),
                             l_pmax = u64 r, l_opts = opts, l_path = Process_subprimes\<rparr>)"
    using h r p by (simp add: main_def)
  have w1: "Warn_p0_not_prime \<notin> set m1" "Warn_no_cuberoots \<notin> set m1"
    using h main_cores_msgs [of env c m1 cores] by auto
  have w4: "Warn_p0_not_prime \<notin> set m4" "Warn_no_cuberoots \<notin> set m4"
    using h main_bounds_msgs [of env c _ _ _ m4 opts] by auto
  have "(Warn_p0_not_prime \<in> set (m1 @ m3 @ m4) \<longleftrightarrow> \<not> is_prime (u32 a))
     \<and> (Warn_no_cuberoots \<in> set (m1 @ m3 @ m4) \<longleftrightarrow>
                u32 a mod 3 = 1 \<and> \<not> has_cuberoots_modp (nat (k_arg c)) (u32 a))"
    using w1 w4 by (auto simp: m3_def)
  then show "\<exists>ms. main env c =
               (ms, Launch \<lparr>l_cores = cores, l_p0 = u32 a, l_pmin = max 2 (u64 q),
                             l_pmax = u64 r, l_opts = opts, l_path = Process_subprimes\<rparr>)
          \<and> (Warn_p0_not_prime \<in> set ms \<longleftrightarrow> \<not> is_prime (u32 a))
          \<and> (Warn_no_cuberoots \<in> set ms \<longleftrightarrow>
                u32 a mod 3 = 1 \<and> \<not> has_cuberoots_modp (nat (k_arg c)) (u32 a))"
    using m by blast
qed

lemma not_prime_4: "\<not> is_prime 4"
  by (simp add: is_prime_def upt_rec)

lemma no_cuberoot_33_mod_7: "\<not> has_cuberoots_modp 33 7"
  by code_simp

lemma is_prime_7: "is_prime 7"
  by (simp add: is_prime_def upt_rec)

text \<open>
  Counterexample to C8 as stated: \<^verbatim>\<open>zcubes 2 33 4x2 4x3 10000 1000000000000\<close> has a \<open>P0 = 4\<close>
  that is not prime, and \<^verbatim>\<open>zcubes 2 33 7x2 7x3 ...\<close> has \<open>P0 = 7 \<equiv> 1 (mod 3)\<close> with no cube
  root of 33 mod 7; in both cases \<^verbatim>\<open>main\<close> prints a warning and launches the workers.
\<close>

theorem main_pinned_nonprime_counterexample:
  "\<not> is_prime 4 \<and>
   main env0 (cmdx 4) = ([Warn_p0_not_prime],
     Launch \<lparr>l_cores = 2, l_p0 = 4, l_pmin = 2, l_pmax = 3, l_opts = 0, l_path = Process_subprimes\<rparr>)
   \<and> \<not> has_cuberoots_modp 33 7 \<and> 7 mod 3 = (1::nat) \<and>
   main env0 (cmdx 7) = ([Warn_no_cuberoots],
     Launch \<lparr>l_cores = 2, l_p0 = 7, l_pmin = 2, l_pmax = 3, l_opts = 0, l_path = Process_subprimes\<rparr>)"
  using next_prime_iff [of 4] next_prime_iff [of 7] not_prime_4 is_prime_7 no_cuberoot_33_mod_7
  by (simp add: main_defs env0_def cmdx_def ui128_len_1e12 has_cuberoots_modp_def upt_rec)

text \<open>
  Witness for C8: \<open>P0 = 11\<close> divides \<open>k = 33\<close> and \<^verbatim>\<open>main\<close> exits with -1; \<open>P0 = 7\<close> passes
  with the warning about cube roots.
\<close>

theorem main_pinned_p0_witness:
  "snd (main env0 (cmdx 11)) = Exit (- 1) \<and>
   (\<exists>ms. main env0 (cmdx 7) =
       (ms, Launch \<lparr>l_cores = 2, l_p0 = 7, l_pmin = 2, l_pmax = 3, l_opts = 0,
                     l_path = Process_subprimes\<rparr>)
      \<and> Warn_p0_not_prime \<notin> set ms \<and> Warn_no_cuberoots \<in> set ms)"
proof -
  have c: "main_cores env0 (cmdx 7) = Inr ([], 2)"
    by (simp add: main_defs env0_def cmdx_def)
  have b: "main_bounds env0 (cmdx 7) 7 2 3 = Inr ([], 0)"
    by (simp add: main_defs env0_def cmdx_def ui128_len_1e12)
  show ?thesis
    using main_pinned_p0 [of "cmdx 11" True 11 2 3 env0]
      main_pinned_p0 [of "cmdx 7" _ 7 2 3 env0 "[]" 2 "[]" 0] c b
      is_prime_7 no_cuberoot_33_mod_7
    by (simp add: cmdx_def u32_def u64_def env0_def)
qed

section \<open>Proofs: the per-d dispatcher\<close>
















section \<open>Proofs: the derived thresholds\<close>

text \<open>
  Claim C9, as amended. With a cached prime (\<open>cptab[1] > 0\<close>) and \<open>dmax < 2\<^sup>6\<^sup>3\<close>, after
  \<^verbatim>\<open>precompute\<close> the threshold \<^verbatim>\<open>pdmin\<close> is the larger of \<open>k + 1\<close> and \<open>1 + dmax / m\<close>, where
  \<open>m\<close> is the smaller of \<^verbatim>\<open>kdmin\<close> and \<^verbatim>\<open>cptab[1]\<close> when \<^verbatim>\<open>kdmin\<close> is not 0, and \<^verbatim>\<open>cptab[1]\<close>
  when it is. It is the value \<open>1 + dmax / min (kdmin, cptab[1])\<close> of the specification when
  \<^verbatim>\<open>kdmin\<close> is not 0 and that value is above k.
\<close>

theorem precompute_pdmin_value:
  "0 < cptab t ! 1 \<and> dmax t < 2 ^ 63 \<longrightarrow>
     precompute_pdmin t = Some (max (K t + 1)
        (1 + dmax t div (if kdmin t = 0 then cptab t ! 1 else min (kdmin t) (cptab t ! 1))))
     \<and> (0 < kdmin t \<and> K t < spec_pdmin t \<longrightarrow> precompute_pdmin t = Some (spec_pdmin t))"
proof (intro impI conjI)
  assume h: "0 < cptab t ! 1 \<and> dmax t < 2 ^ 63"
  define m where "m = (if kdmin t \<noteq> 0 then min (kdmin t) (cptab t ! 1) else cptab t ! 1)"
  have mpos: "m \<noteq> 0" using h by (auto simp: m_def)
  have d: "dmax t < 9223372036854775808" using h by simp
  have "dmax t div m \<le> dmax t" by (rule div_le_dividend)
  with d have "1 + dmax t div m < 18446744073709551616" by linarith
  then have "1 + dmax t div m < 2 ^ 64" by simp
  then have md: "(1 + dmax t div m) mod 2 ^ 64 = 1 + dmax t div m" by (rule mod_less)
  have p: "precompute_pdmin t = Some (if 1 + dmax t div m \<le> K t then K t + 1 else 1 + dmax t div m)"
    unfolding precompute_pdmin_def Let_def m_def [symmetric] md using mpos by simp
  have m2: "m = (if kdmin t = 0 then cptab t ! 1 else min (kdmin t) (cptab t ! 1))"
    by (simp add: m_def)
  show "precompute_pdmin t = Some (max (K t + 1)
        (1 + dmax t div (if kdmin t = 0 then cptab t ! 1 else min (kdmin t) (cptab t ! 1))))"
    unfolding p m2 [symmetric] by (simp add: max_def)
  show "precompute_pdmin t = Some (spec_pdmin t)" if "0 < kdmin t \<and> K t < spec_pdmin t"
  proof -
    have "m = min (kdmin t) (cptab t ! 1)" using that by (simp add: m_def)
    then show ?thesis using that unfolding p spec_pdmin_def by simp
  qed
qed

lemma tab33_pdmin: "precompute_pdmin tab33 = Some 51"
  by (simp add: precompute_pdmin_def tab33_def)

lemma tab33_bpmin: "precompute_bpmin tab33 = Some 13"
  by (simp add: precompute_bpmin_def tab33_def zmaxld_def zmaxld_of_small fastceilboundl_def)

lemma tab33_precompute: "precompute tab33 = Some tab33"
  by (simp add: precompute_def tab33_pdmin tab33_bpmin) (simp add: tab33_def)

text \<open>Witness for C9: k = 33, dmax = 100, \<^verbatim>\<open>kdmin\<close> = 3 and \<^verbatim>\<open>cptab[1]\<close> = 2 give 51.\<close>

theorem precompute_pdmin_value_witness:
  "0 < cptab tab33 ! 1 \<and> dmax tab33 < 2 ^ 63 \<and> 0 < kdmin tab33 \<and> K tab33 < spec_pdmin tab33 \<and>
   precompute_pdmin tab33 = Some 51 \<and> spec_pdmin tab33 = 51"
  using precompute_pdmin_value [of tab33]
  by (simp add: spec_pdmin_def tab33_def)

text \<open>
  Counterexample to C9 as stated: k = 33, dmax = 60, \<^verbatim>\<open>kdmin\<close> = 3 and \<^verbatim>\<open>cptab[1]\<close> = 2. The
  value of the specification is \<open>1 + 60 / 2 = 31\<close>, which is not above k, and line 292
  sets \<^verbatim>\<open>pdmin\<close> to \<open>k + 1 = 34\<close>.
\<close>

theorem precompute_pdmin_counterexample:
  "precompute_pdmin (tab33\<lparr>dmax := 60\<rparr>) = Some 34 \<and> spec_pdmin (tab33\<lparr>dmax := 60\<rparr>) = 31"
  by (simp add: precompute_pdmin_def spec_pdmin_def tab33_def)

section \<open>Proofs: the phase driver\<close>

declare cptab_scan.simps [simp del] max_power_loop.simps [simp del] powers_below.simps [simp del]

lemma reported_append: "reported (a @ b) = reported a @ reported b"
  by (induction a rule: reported.induct) auto


lemma quiet_Continue:
  assumes "quiet body" "body s p = Continue cs s'"
  shows "reported cs = []"
  using assms(1) [unfolded quiet_def, rule_format, of s p] assms(2) by simp

lemma quiet_Assert:
  assumes "quiet body" "body s p = Assert_failed cs"
  shows "reported cs = []"
  using assms(1) [unfolded quiet_def, rule_format, of s p] assms(2) by simp

lemma pipe_loop_quiet:
  assumes "quiet body"
  shows "reported (loop_calls (pipe_loop cond body s p pipe)) = []"
proof (induction pipe arbitrary: s p)
  case Nil
  show ?case
  proof (cases "body s p")
    case (Continue cs s')
    then show ?thesis using quiet_Continue [OF assms Continue] by simp
  next
    case (Assert_failed cs)
    then show ?thesis using quiet_Assert [OF assms Assert_failed] by simp
  next
    case Spins
    then show ?thesis by simp
  qed
next
  case (Cons x xs)
  show ?case
  proof (cases "cond p")
    case False
    then show ?thesis by simp
  next
    case True
    show ?thesis
    proof (cases "body s p")
      case (Continue cs s')
      have a: "reported cs = []" using quiet_Continue [OF assms Continue] .
      have b: "reported (loop_calls (pipe_loop cond body s' x xs)) = []" using Cons .
      show ?thesis
      proof (cases "pipe_loop cond body s' x xs")
        case (Loop_exit cs' s'' p' pipe')
        then show ?thesis using True Continue a b by (simp add: reported_append)
      next
        case (Loop_abort cs')
        then show ?thesis using True Continue a b by (simp add: reported_append)
      next
        case Loop_spins
        then show ?thesis using True Continue by simp
      qed
    next
      case (Assert_failed cs)
      then show ?thesis using True quiet_Assert [OF assms Assert_failed] by simp
    next
      case Spins
      then show ?thesis using True by simp
    qed
  qed
qed

lemma prefix_run_finish: "prefix_run (reported tr) phs (finish pmax tr p)"
  unfolding prefix_run_def finish_def by (auto intro: exI [of _ 0])

lemma prefix_run_Aborted: "prefix_run (reported tr) phs (Aborted tr)"
  unfolding prefix_run_def by (auto intro: exI [of _ 0])

lemma prefix_run_step: "prefix_run (base @ [ph]) phs r \<Longrightarrow> prefix_run base (ph # phs) r"
  unfolding prefix_run_def
proof (erule disjE)
  assume "r = Diverges" then show "r = Diverges \<or> (\<exists>n. reported (trace_of r) = base @ take n (ph # phs))"
    by simp
next
  assume "\<exists>n. reported (trace_of r) = (base @ [ph]) @ take n phs"
  then obtain n where "reported (trace_of r) = (base @ [ph]) @ take n phs" ..
  then have "reported (trace_of r) = base @ take (Suc n) (ph # phs)" by simp
  then show "r = Diverges \<or> (\<exists>n. reported (trace_of r) = base @ take n (ph # phs))" by blast
qed

lemma prefix_run_after_loop:
  assumes "reported (loop_calls r) = []"
    and "\<And>tr' p' pipe'. reported tr' = reported tr \<Longrightarrow> prefix_run (reported tr) phs (rest tr' p' pipe')"
  shows "prefix_run (reported tr) phs (after_loop tr r rest)"
proof (cases r)
  case (Loop_exit cs s p pipe)
  then have "reported (tr @ cs) = reported tr" using assms(1) by (simp add: reported_append)
  then show ?thesis using assms(2) Loop_exit by (simp add: after_loop_def)
next
  case (Loop_abort cs)
  then have "reported (tr @ cs) = reported tr" using assms(1) by (simp add: reported_append)
  then show ?thesis using Loop_abort prefix_run_Aborted [of "tr @ cs" phs]
    by (simp add: after_loop_def)
next
  case Loop_spins
  then show ?thesis by (simp add: after_loop_def prefix_run_def)
qed

lemma reported_concat_map:
  "(\<And>x. reported (f x) = []) \<Longrightarrow> reported (concat (map f xs)) = []"
  by (induction xs) (auto simp: reported_append)

lemma reported_map_prockd: "reported (map (\<lambda>i. Call_prockd (f i) (g i) (h i)) xs) = []"
  by (induction xs) auto

lemma quiet_cached: "quiet (cached_body t)"
  unfolding quiet_def cached_body_def Let_def
  by (auto split: option.splits prod.splits simp: reported_append reported_concat_map)

lemma quiet_uncached: "quiet (uncached_body t)"
  unfolding quiet_def uncached_body_def Let_def by auto

lemma quiet_cocached: "quiet (cocached_body t)"
  unfolding quiet_def cocached_body_def Let_def by auto

lemma quiet_nearprime: "quiet (nearprime_body t)"
  unfolding quiet_def nearprime_body_def Let_def by (auto simp: reported_map_prockd)

lemma quiet_prime: "quiet (prime_body t)"
  unfolding quiet_def prime_body_def Let_def by auto

lemma quiet_bigprime: "quiet (bigprime_body t pmax)"
  unfolding quiet_def bigprime_body_def Let_def by (auto split: prod.splits)

lemma quiet_bigprime7: "quiet (bigprime7_body t pmax)"
  unfolding quiet_def bigprime7_body_def Let_def by (auto split: prod.splits)

lemma prefix_run_bigprime:
  "prefix_run (reported tr) [PHASE_BIGPRIME] (from_bigprime t pmax tr p pipe)"
proof -
  have last_report: "prefix_run (reported tr) [PHASE_BIGPRIME]
      (finish pmax (tr' @ [Phase_report PHASE_BIGPRIME]) p')"
    if "reported tr' = reported tr" for tr' p'
    using prefix_run_step [of "reported tr" PHASE_BIGPRIME "[]"]
      prefix_run_finish [of "tr' @ [Phase_report PHASE_BIGPRIME]" "[]" pmax p'] that
    by (simp add: reported_append)
  show ?thesis
    unfolding from_bigprime_def Let_def
    using prefix_run_after_loop [OF pipe_loop_quiet [OF quiet_bigprime]]
      prefix_run_after_loop [OF pipe_loop_quiet [OF quiet_bigprime7]] last_report
    by auto
qed

lemma prefix_run_rest:
  assumes "\<And>tr'' p'' pipe''. prefix_run (reported tr'') phs (nxt tr'' p'' pipe'')"
    and "reported tr' = reported tr"
  shows "prefix_run (reported tr) (ph # phs)
           (let tr'' = tr' @ [Phase_report ph] in
            if p' > pmax then finish pmax tr'' p' else nxt tr'' p' pipe')"
proof -
  have "prefix_run (reported (tr' @ [Phase_report ph])) phs
           (if p' > pmax then finish pmax (tr' @ [Phase_report ph]) p'
            else nxt (tr' @ [Phase_report ph]) p' pipe')"
    using assms(1) prefix_run_finish by simp
  then show ?thesis
    using prefix_run_step [of "reported tr" ph phs] assms(2)
    by (simp add: reported_append Let_def)
qed

lemma prefix_run_prime:
  "prefix_run (reported tr) [PHASE_PRIME, PHASE_BIGPRIME] (from_prime t pmax tr p pipe)"
  unfolding from_prime_def
  by (rule prefix_run_after_loop [OF pipe_loop_quiet [OF quiet_prime]])
     (rule prefix_run_rest [OF prefix_run_bigprime])

lemma prefix_run_nearprime:
  "prefix_run (reported tr) [PHASE_NEARPRIME, PHASE_PRIME, PHASE_BIGPRIME]
     (from_nearprime t pmax tr p pipe)"
  unfolding from_nearprime_def
  by (rule prefix_run_after_loop [OF pipe_loop_quiet [OF quiet_nearprime]])
     (rule prefix_run_rest [OF prefix_run_prime])

lemma prefix_run_cocached:
  "prefix_run (reported tr) [PHASE_COCACHED, PHASE_NEARPRIME, PHASE_PRIME, PHASE_BIGPRIME]
     (from_cocached t pmax tr p pipe)"
  unfolding from_cocached_def
  by (rule prefix_run_after_loop [OF pipe_loop_quiet [OF quiet_cocached]])
     (rule prefix_run_rest [OF prefix_run_nearprime])

lemma prefix_run_uncached:
  "prefix_run (reported tr)
     [PHASE_UNCACHED, PHASE_COCACHED, PHASE_NEARPRIME, PHASE_PRIME, PHASE_BIGPRIME]
     (from_uncached t pmax tr p pipe)"
proof -
  have "prefix_run (reported tr)
     [PHASE_UNCACHED, PHASE_COCACHED, PHASE_NEARPRIME, PHASE_PRIME, PHASE_BIGPRIME]
     (after_loop tr (pipe_loop (\<lambda>p. p < cdmin t \<and> p \<le> pmax) (uncached_body t) () p pipe)
          (\<lambda>tr' p' pipe'.
             let tr'' = tr' @ [Phase_report PHASE_UNCACHED] in
             if p' > pmax then finish pmax tr'' p' else from_cocached t pmax tr'' p' pipe'))"
    by (rule prefix_run_after_loop [OF pipe_loop_quiet [OF quiet_uncached]])
       (rule prefix_run_rest [OF prefix_run_cocached])
  then show ?thesis
    unfolding from_uncached_def using prefix_run_Aborted [of tr] by simp
qed

lemma first_loop_quiet:
  "reported (loop_calls (if c then pipe_loop cond (cached_body t) s p pipe
                         else Loop_exit [] 0 p pipe)) = []"
  using pipe_loop_quiet [OF quiet_cached] by simp

lemma prefix_run_process_primes:
  "prefix_run [] all_phases (process_primes t pstart pmax pipe0)"
proof -
  obtain p pipe where r: "primes_read_pipe pipe0 = (p, pipe)" by (cases "primes_read_pipe pipe0")
  have rest: "prefix_run (reported []) all_phases
          (let tr' = tr @ [Phase_report PHASE_CACHED] in
             if \<not> report_phase t PHASE_CACHED then finish pmax tr' p'
             else if p' > pmax then finish pmax tr' p'
             else from_uncached t pmax tr' p' pipe')"
    if "reported tr = reported []" for tr p' pipe'
  proof -
    have "prefix_run (reported (tr @ [Phase_report PHASE_CACHED]))
        [PHASE_UNCACHED, PHASE_COCACHED, PHASE_NEARPRIME, PHASE_PRIME, PHASE_BIGPRIME]
          (if \<not> report_phase t PHASE_CACHED then finish pmax (tr @ [Phase_report PHASE_CACHED]) p'
             else if p' > pmax then finish pmax (tr @ [Phase_report PHASE_CACHED]) p'
             else from_uncached t pmax (tr @ [Phase_report PHASE_CACHED]) p' pipe')"
      using prefix_run_finish prefix_run_uncached by simp
    then show ?thesis
      using that prefix_run_step [of "[]" PHASE_CACHED]
      by (simp add: reported_append Let_def all_phases_def)
  qed
  have "prefix_run (reported []) all_phases
      (after_loop []
          (if p \<le> cpmax t
           then pipe_loop (\<lambda>p. p \<le> cpmax t \<and> p \<le> pmax) (cached_body t)
                  (pimaxp t pstart 1 (dmax t)) p pipe
           else Loop_exit [] 0 p pipe)
          (\<lambda>tr p' pipe'.
             let tr' = tr @ [Phase_report PHASE_CACHED] in
             if \<not> report_phase t PHASE_CACHED then finish pmax tr' p'
             else if p' > pmax then finish pmax tr' p'
             else from_uncached t pmax tr' p' pipe'))"
    by (rule prefix_run_after_loop [OF first_loop_quiet]) (rule rest)
  then show ?thesis
    unfolding process_primes_def r using prefix_run_Aborted [of "[]" all_phases]
    by (simp add: prefix_run_def)
qed


















lemma upt_0_numeral: "[0..<numeral n] = 0 # [Suc 0..<numeral n]"
  by (rule upt_conv_Cons) simp

lemma upt_Suc0_numeral: "[Suc 0..<numeral n] = (if Suc 0 < numeral n then Suc 0 # [2..<numeral n] else [])"
proof (cases "Suc 0 < (numeral n :: nat)")
  case True
  then have "[Suc 0..<numeral n] = Suc 0 # [Suc (Suc 0)..<numeral n]" by (rule upt_conv_Cons)
  then show ?thesis using True by (simp add: numeral_2_eq_2)
next
  case False
  then show ?thesis by simp
qed

lemma roots33:
  "cuberoots_of 33 17 = [16]" "cuberoots_of 33 23 = [5]" "cuberoots_of 33 29 = [9]"
  "cuberoots_of 33 41 = [39]" "cuberoots_of 33 53 = [26]"
  by (simp_all add: cuberoots_of_def upt_0_numeral upt_Suc0_numeral)

lemma tab33c_fields:
  "K tab33c = 33" "dmax tab33c = 100" "zmax128 tab33c = 900" "pdmin tab33c = 51"
  "bpmin tab33c = 13" "ZSHORT tab33c = 4" "ZFEW tab33c = 16" "cpmax tab33c = 17"
  "cdmin tab33c = 25" "sdmin tab33c = 40" "sdmax tab33c = 2" "km1 tab33c = 9" "km2 tab33c = 18"
  "km tab33c = [9, 18, 63, 126]" "cptab tab33c = [0, 2, 5, 17]"
  "kdmax tab33c = [100, 33, 9, 3, 0]"
  "sdtab tab33c = [\<lparr>sd_d = 0, sd_n = 0, sd_r = 0, sd_i = 0\<rparr>, \<lparr>sd_d = 2, sd_n = 1, sd_r = 0, sd_i = 0\<rparr>]"
  "sdroots tab33c = [1]" "sdinvs tab33c = [0, 1]"
  "sgnz_index tab33c = (\<lambda>d. 0)" "onezmod7 tab33c = (\<lambda>d si. False)"
  "cuberoots_modp tab33c = cuberoots_of 33"
  "cuberoots_modq tab33c = (\<lambda>p i. cuberoots_of 33 (p ^ i))"
  "cached_cuberoots_e tab33c = (\<lambda>pi. 1)"
  "cached_cuberoots_modq tab33c = (\<lambda>pi e. cuberoots_of 33 ([0, 2, 5, 17] ! pi ^ e))"
  "report_p tab33c = (\<lambda>p. True)" "report_c tab33c = (\<lambda>n. True)"
  "report_d tab33c = (\<lambda>d n. True)" "report_phase tab33c = (\<lambda>ph. True)"
  by (simp_all add: tab33c_def tab33_def)

lemma tab33c_zmaxld: "zmaxld tab33c = 901"
  by (simp add: zmaxld_def zmaxld_of_small tab33c_fields)

lemma tab33c_pimaxp: "pimaxp tab33c 2 (Suc 0) 100 = Suc 0"
  by (simp add: pimaxp_def tab33c_fields)

lemma tab33c_scan: "cptab_scan tab33c 17 (Suc 0) = 3"
  by (simp add: cptab_scan.simps tab33c_fields)

lemma max_power17: "max_power 17 100 = Some (1, 17)"
  by (simp add: max_power_def max_power_loop.simps)

lemma cached17: "cached_body tab33c (Suc 0) 17 = Continue [Call_prockd 17 [16] 1, Call_enumd 17 17 [16] 1] 3"
  by (simp add: Let_def cached_body_def tab33c_fields tab33c_scan max_power17 roots33 powers_below.simps)

lemma uncached23: "uncached_body tab33c () 23 = Continue [Call_prockd 23 [5] 1, Call_enumd 23 23 [5] 1] ()"
  by (simp add: Let_def uncached_body_def tab33c_fields roots33)

lemma cocached29: "cocached_body tab33c () 29 = Continue [Call_prockd 29 [9] 1, Call_enumcd 29 29 [9] 1] ()"
  by (simp add: Let_def cocached_body_def tab33c_fields roots33)

lemma nearprime41: "nearprime_body tab33c (Suc 0) 41 = Continue [Call_prockd 41 [39] 1, Call_prockd 82 [39] 1] 1"
  by (simp add: Let_def nearprime_body_def nearprime_roots_def b32_crt64_def tab33c_fields roots33)

lemma bigprime_l53: "bigprime_l tab33c 53 18 = 1" "bigprime_lpmax tab33c 100 (Suc 0) 18 = 100"
  "bigprime_l tab33c 53 126 = 1" "bigprime_lpmax tab33c 100 (Suc 0) 126 = 100"
  by (simp_all add: Let_def bigprime_l_def bigprime_lpmax_def tab33c_zmaxld fastceilboundl_def tab33c_fields)

lemma bigprime53: "bigprime7_body tab33c 100 ((Suc 0, 100), (Suc 0, 100)) 53 =
    Continue [Call_dispatch (Procdbigprime 53 [26] 1 0 1 1)] ((1, 100), (1, 100))"
  by (simp add: Let_def bigprime7_body_def tab33c_fields roots33)

lemma run_all_phases:
  "process_primes tab33c 2 100 [17, 23, 29, 41, 53] =
   Returned
  [Call_prockd 17 [16] 1, Call_enumd 17 17 [16] 1,
   Phase_report PHASE_CACHED, Call_prockd 23 [5] 1, Call_enumd 23 23 [5] 1,
   Phase_report PHASE_UNCACHED, Call_prockd 29 [9] 1,
   Call_enumcd 29 29 [9] 1, Phase_report PHASE_COCACHED,
   Call_prockd 41 [39] 1, Call_prockd 82 [39] 1,
   Phase_report PHASE_NEARPRIME, Phase_report PHASE_PRIME,
   Call_dispatch (Procdbigprime 53 [26] 1 0 1 1),
   Phase_report PHASE_BIGPRIME]"
  by (simp add: Let_def process_primes_def primes_read_pipe_def after_loop_def finish_def
      from_uncached_def from_cocached_def from_nearprime_def from_prime_def from_bigprime_def
      tab33c_fields tab33c_pimaxp cached17 uncached23 cocached29 nearprime41 bigprime53
      bigprime_l53)




lemma process_primes_prefix:
  "\<exists>n. reported (trace_of (process_primes t pstart pmax pipe)) = take n all_phases"
  using prefix_run_process_primes [of t pstart pmax pipe] unfolding prefix_run_def
  by (auto intro: exI [of _ 0])






lemma sorted_phase_ids: "sorted_wrt (<) (map phase_id (take n all_phases))"
proof -
  have "sorted_wrt (<) (map phase_id all_phases)" by (simp add: all_phases_def)
  then have "sorted_wrt (<) (take n (map phase_id all_phases))" by (rule sorted_wrt_take)
  then show ?thesis by (simp add: take_map)
qed

lemma distinct_phases: "distinct (take n all_phases)"
  by (rule distinct_take) (simp add: all_phases_def)

text \<open>
  Claim C6. Within one execution of \<^verbatim>\<open>process_primes\<close>, the phases given to \<^verbatim>\<open>report_phase\<close>
  are the first phases of the list \<^verbatim>\<open>PHASE_CACHED\<close>, \<^verbatim>\<open>PHASE_UNCACHED\<close>, \<^verbatim>\<open>PHASE_COCACHED\<close>,
  \<^verbatim>\<open>PHASE_NEARPRIME\<close>, \<^verbatim>\<open>PHASE_PRIME\<close>, \<^verbatim>\<open>PHASE_BIGPRIME\<close>, in this order: their ids increase
  strictly, and each phase is reported at most once.
\<close>

theorem phases_monotone:
  "(\<exists>n. reported (trace_of (process_primes t pstart pmax pipe)) = take n all_phases)
   \<and> sorted_wrt (<) (map phase_id (reported (trace_of (process_primes t pstart pmax pipe))))
   \<and> distinct (reported (trace_of (process_primes t pstart pmax pipe)))"
proof -
  obtain n where n: "reported (trace_of (process_primes t pstart pmax pipe)) = take n all_phases"
    using process_primes_prefix by blast
  show ?thesis
    unfolding n using sorted_phase_ids [of n] distinct_phases [of n] by blast
qed

text \<open>
  An instance of C6: the run of the example for k = 33 on the pipe 17, 23, 29, 41, 53
  reports the six phases, with ids 1 to 6.
\<close>

theorem phases_monotone_witness:
  "reported (trace_of (process_primes tab33c 2 100 [17, 23, 29, 41, 53])) = take 6 all_phases
   \<and> map phase_id (reported (trace_of (process_primes tab33c 2 100 [17, 23, 29, 41, 53])))
       = [1, 2, 3, 4, 5, 6]
   \<and> sorted_wrt (<) (map phase_id (reported (trace_of (process_primes tab33c 2 100 [17, 23, 29, 41, 53]))))"
  using phases_monotone [of tab33c 2 100 "[17, 23, 29, 41, 53]"]
  by (simp add: run_all_phases all_phases_def)

section \<open>Proofs: the d-enumerator\<close>

lemma fst_emit: "fst (emit cs r) = cs @ fst r"
  by (simp add: emit_def)

lemma all_emit: "list_all P (fst (emit cs r)) = (list_all P cs \<and> list_all P (fst r))"
  by (simp add: emit_def)

lemma all_and_then:
  "list_all P (fst r1) \<Longrightarrow> list_all P (fst r2) \<Longrightarrow> list_all P (fst (and_then r1 r2))"
  by (simp add: and_then_def emit_def)

lemma pimaxp_props:
  assumes "pimaxp t x d dm \<noteq> 0"
  shows "0 < pimaxp t x d dm \<and> pimaxp t x d dm < length (cptab t) \<and>
         cptab t ! pimaxp t x d dm \<le> x \<and> d * cptab t ! pimaxp t x d dm \<le> dm"
proof -
  define l where "l = filter (\<lambda>i. cptab t ! i \<le> x \<and> d * cptab t ! i \<le> dm) (rev [1..<length (cptab t)])"
  obtain i r where l: "l = i # r" and pi: "pimaxp t x d dm = i"
    using assms unfolding pimaxp_def l_def [symmetric] by (cases l) auto
  have "i \<in> set l" using l by simp
  then show ?thesis unfolding l_def pi by auto
qed

lemma cptab_ge2: "cptab_ok t \<Longrightarrow> 0 < i \<Longrightarrow> i < length (cptab t) \<Longrightarrow> 2 \<le> cptab t ! i"
proof -
  assume a: "cptab_ok t" "0 < i" "i < length (cptab t)"
  then have "cptab t ! i = tl (cptab t) ! (i - 1)" by (cases "cptab t") (auto simp: nth_Cons')
  moreover have "i - 1 < length (tl (cptab t))" using a by simp
  ultimately show ?thesis using a(1) unfolding cptab_ok_def list_all_length by auto
qed

lemma cptab_mono:
  assumes "cptab_ok t" "0 < i" "i < j" "j < length (cptab t)"
  shows "cptab t ! i < cptab t ! j"
proof -
  have a: "cptab t ! i = tl (cptab t) ! (i - 1)" "cptab t ! j = tl (cptab t) ! (j - 1)"
    using assms by (cases "cptab t"; auto simp: nth_Cons')+
  have "i - 1 < j - 1" "j - 1 < length (tl (cptab t))" using assms by auto
  then show ?thesis using assms(1) unfolding cptab_ok_def a sorted_wrt_iff_nth_less by blast
qed

lemma loop_inv_next:
  assumes "cptab_ok t" "dmax t < 2 ^ 64" "1 \<le> d" "loop_inv t d s" "fst (snd s) \<noteq> 0"
  shows "loop_inv t d (enumd_next t d s)"
proof -
  obtain q pi e where s: "s = (q, pi, e)" by (cases s)
  have pi: "0 < pi" "pi < length (cptab t)"
    and inv: "q = cptab t ! pi ^ e" "1 \<le> e" "cptab t ! pi \<le> d" "d * q \<le> dmax t"
    using assms(4,5) unfolding s loop_inv_def by auto
  have r2: "2 \<le> cptab t ! pi" using cptab_ge2 [OF assms(1) pi] .
  have rq: "cptab t ! pi \<le> q"
    unfolding inv(1) using r2 inv(2) self_le_power [of "cptab t ! pi" e] by simp
  have "q * cptab t ! pi \<le> q * d" using inv(3) by (rule mult_le_mono2)
  also have "\<dots> = d * q" by (rule mult.commute)
  finally have "q * cptab t ! pi \<le> dmax t" using inv(4) by (rule le_trans)
  then have nw: "(q * cptab t ! pi) mod 2 ^ 64 = q * cptab t ! pi" using assms(2) by simp
  show ?thesis
  proof (cases "d * (q * cptab t ! pi) > dmax t")
    case True
    then have n: "enumd_next t d s = (cptab t ! (pi - 1), pi - 1, 1)"
      using nw by (simp add: s enumd_next_def Let_def)
    show ?thesis
    proof (cases "0 < pi - 1")
      case False
      then show ?thesis unfolding n loop_inv_def using pi by auto
    next
      case True
      have lt: "cptab t ! (pi - 1) < cptab t ! pi"
        using cptab_mono [OF assms(1) True _ pi(2)] pi by simp
      have "cptab t ! (pi - 1) \<le> q" using lt rq by simp
      then have "d * cptab t ! (pi - 1) \<le> d * q" by (rule mult_le_mono2)
      then have b: "d * cptab t ! (pi - 1) \<le> dmax t" using inv(4) by (rule le_trans)
      have c: "cptab t ! (pi - 1) \<le> d" using lt inv(3) by simp
      show ?thesis unfolding n loop_inv_def using pi b c by auto
    qed
  next
    case False
    then have n: "enumd_next t d s = (q * cptab t ! pi, pi, e + 1)"
      using nw by (simp add: s enumd_next_def Let_def)
    have "q * cptab t ! pi = cptab t ! pi ^ (e + 1)" unfolding inv(1) by simp
    then show ?thesis unfolding n loop_inv_def using pi inv False by simp
  qed
qed

lemma loop_inv_item: "loop_inv t d s \<Longrightarrow> fst (snd s) \<noteq> 0 \<Longrightarrow> item_inv t d s"
  by (cases s) (auto simp: loop_inv_def item_inv_def)

lemma loop_inv_within: "loop_inv t d s \<Longrightarrow> fst (snd s) \<noteq> 0 \<Longrightarrow> within (dmax t) (Append d (fst s))"
  by (cases s) (auto simp: loop_inv_def)

declare enumcd_loop.simps [simp del]

lemma cd_down_le: "cd_down t p i \<le> i"
  by (induction i) auto

lemma cd_down_less: "0 < x \<Longrightarrow> cd_down t p (x - Suc 0) < x"
  using cd_down_le [of t p "x - Suc 0"] by linarith

lemma cdtab_nth_tl:
  "0 < i \<Longrightarrow> i < length (cdtab t) \<Longrightarrow> cdtab t ! i = tl (cdtab t) ! (i - 1) \<and> i - 1 < length (tl (cdtab t))"
  by (cases "cdtab t") (auto simp: nth_Cons')

lemma cdtab_mono:
  assumes "cdtab_ok t" "0 < i" "i \<le> j" "j < length (cdtab t)"
  shows "cd_d (cdtab t ! i) \<le> cd_d (cdtab t ! j)"
proof (cases "i = j")
  case True
  then show ?thesis by simp
next
  case False
  have a: "cdtab t ! i = tl (cdtab t) ! (i - 1)" "cdtab t ! j = tl (cdtab t) ! (j - 1)"
    "j - 1 < length (tl (cdtab t))"
    using assms cdtab_nth_tl [of i t] cdtab_nth_tl [of j t] by auto
  have "i - 1 < j - 1" using assms False by auto
  then show ?thesis using assms(1) a(3) unfolding cdtab_ok_def a(1,2) sorted_wrt_iff_nth_less by blast
qed

lemma cdtab_small:
  assumes "cdtab_ok t" "0 < i" "i < length (cdtab t)" "cd_d (cdtab t ! i) \<le> sdmax t"
  shows "sd_d (sdtab t ! cd_sdpi (cdtab t ! i)) = cd_d (cdtab t ! i)"
proof -
  have "cdtab t ! i \<in> set (tl (cdtab t))"
    using cdtab_nth_tl [OF assms(2,3)] by (metis nth_mem)
  then show ?thesis using assms(1,4) unfolding cdtab_ok_def list_all_iff by blast
qed

lemma cdentry_props:
  assumes "cdentry t pm d dm = Some x"
  shows "0 < x \<and> x < length (cdtab t) \<and> d * cd_d (cdtab t ! x) \<le> dm"
proof -
  define l where "l = filter (\<lambda>i. cd_p (cdtab t ! i) \<le> pm \<and> d * cd_d (cdtab t ! i) \<le> dm)
                  (rev [1..<length (cdtab t)])"
  obtain r where l: "l = x # r"
    using assms unfolding cdentry_def l_def [symmetric] by (cases l) auto
  have "x \<in> set l" using l by simp
  then show ?thesis unfolding l_def by auto
qed

lemma batch_within:
  assumes "\<forall>i\<in>set queue. d * cd_d (cdtab t ! i) \<le> dmax t"
  shows "list_all (within (dmax t)) (enumcd_batch t d zd n queue)"
proof -
  have "(cd_d (cdtab t ! i) * d) mod 2 ^ 64 \<le> dmax t" if "i \<in> set queue" for i
  proof -
    have "(cd_d (cdtab t ! i) * d) mod 2 ^ 64 \<le> cd_d (cdtab t ! i) * d" by (rule mod_less_eq_dividend)
    also have "\<dots> = d * cd_d (cdtab t ! i)" by (rule mult.commute)
    finally show ?thesis using assms that by (meson le_trans)
  qed
  then show ?thesis unfolding enumcd_batch_def list_all_iff by (auto simp: Let_def)
qed

lemma small_within:
  assumes "sd_d (sdtab t ! cd_sdpi x) = cd_d x" "d * cd_d x \<le> dmax t"
  shows "within (dmax t) (enumcd_small t d zd n x)"
proof -
  have "(d * cd_d x) mod 2 ^ 64 \<le> d * cd_d x" by (rule mod_less_eq_dividend)
  then have "(d * cd_d x) mod 2 ^ 64 \<le> dmax t" using assms(2) by (rule le_trans)
  then show ?thesis unfolding enumcd_small_def Let_def assms(1) by simp
qed

lemma enumcd_loop_within:
  assumes ok: "cdtab_ok t"
  shows "x < length (cdtab t) \<Longrightarrow> (\<forall>i. 0 < i \<and> i \<le> x \<longrightarrow> d * cd_d (cdtab t ! i) \<le> dmax t) \<Longrightarrow>
         (\<forall>i\<in>set queue. d * cd_d (cdtab t ! i) \<le> dmax t) \<Longrightarrow>
         list_all (within (dmax t)) (fst (enumcd_loop t d p zd n x queue))"
proof (induction x arbitrary: queue rule: less_induct)
  case (less x)
  define x' where "x' = cd_down t p (x - 1)"
  have x'le: "x' \<le> x" unfolding x'_def using cd_down_le [of t p "x - 1"] by linarith
  have bq: "list_all (within (dmax t)) (enumcd_batch t d zd n queue)"
    using batch_within less.prems(3) by blast
  show ?case
  proof (cases "x = 0 \<or> cd_d (cdtab t ! x) = 0")
    case True
    then show ?thesis
      using bq by (subst enumcd_loop.simps) (simp add: Let_def)
  next
    case False
    then have x0: "0 < x" by simp
    have x'lt: "x' < x" unfolding x'_def using cd_down_less [OF x0] by simp
    have bx: "d * cd_d (cdtab t ! x) \<le> dmax t" using less.prems(2) x0 by simp
    have p1: "x' < length (cdtab t)" using x'lt less.prems(1) by simp
    have p2: "\<forall>i. 0 < i \<and> i \<le> x' \<longrightarrow> d * cd_d (cdtab t ! i) \<le> dmax t"
      using less.prems(2) x'le by auto
    have ih: "list_all (within (dmax t)) (fst (enumcd_loop t d p zd n x' qu))"
      if "\<forall>i\<in>set qu. d * cd_d (cdtab t ! i) \<le> dmax t" for qu
      using less.IH [OF x'lt p1 p2 that] .
    have sm: "within (dmax t) (enumcd_small t d zd n (cdtab t ! x))" if "cd_d (cdtab t ! x) \<le> sdmax t"
      using small_within [OF cdtab_small [OF ok x0 less.prems(1) that] bx] .
    have i1: "list_all (within (dmax t)) (fst (enumcd_loop t d p zd n x' []))"
      using ih [of "[]"] by simp
    have i2: "list_all (within (dmax t)) (fst (enumcd_loop t d p zd n x' [x]))"
      using ih [of "[x]"] bx by simp
    have i3: "list_all (within (dmax t)) (fst (enumcd_loop t d p zd n x' queue))"
      using ih [of queue] less.prems(3) by simp
    have i4: "list_all (within (dmax t)) (fst (enumcd_loop t d p zd n x' (queue @ [x])))"
      using ih [of "queue @ [x]"] less.prems(3) bx by simp
    show ?thesis
      using False bq sm i1 i2 i3 i4
      by (subst enumcd_loop.simps) (simp add: Let_def all_emit x'_def)
  qed
qed

lemma enumcd_within:
  assumes "cdtab_ok t"
  shows "list_all (within (dmax t)) (fst (enumcd t d p zd n))"
proof (cases "cdentry t ((p + 2 ^ 64 - 1) mod 2 ^ 64) d (dmax t)")
  case None
  then show ?thesis by (simp add: enumcd_def)
next
  case (Some x)
  note pr = cdentry_props [OF Some]
  have "\<forall>i. 0 < i \<and> i \<le> x \<longrightarrow> d * cd_d (cdtab t ! i) \<le> dmax t"
  proof (intro allI impI)
    fix i assume i: "0 < i \<and> i \<le> x"
    have "cd_d (cdtab t ! i) \<le> cd_d (cdtab t ! x)" using cdtab_mono [OF assms _ _ _] i pr by simp
    then have "d * cd_d (cdtab t ! i) \<le> d * cd_d (cdtab t ! x)" by (rule mult_le_mono2)
    moreover have "d * cd_d (cdtab t ! x) \<le> dmax t" using pr by simp
    ultimately show "d * cd_d (cdtab t ! i) \<le> dmax t" by (rule le_trans)
  qed
  then have "list_all (within (dmax t)) (fst (enumcd_loop t d p zd n x []))"
    using enumcd_loop_within [OF assms] pr by simp
  then show ?thesis using Some by (simp add: enumcd_def)
qed

lemma enum_within:
  shows "cptab_ok t \<Longrightarrow> cdtab_ok t \<Longrightarrow> dmax t < 2 ^ 64 \<Longrightarrow> 1 \<le> p \<Longrightarrow> p \<le> d \<Longrightarrow>
         list_all (within (dmax t)) (fst (enumd f t d p zd n))"
    and "cptab_ok t \<Longrightarrow> cdtab_ok t \<Longrightarrow> dmax t < 2 ^ 64 \<Longrightarrow> 1 \<le> d \<Longrightarrow> loop_inv t d s \<Longrightarrow>
         list_all (item_inv t d) queue \<Longrightarrow>
         list_all (within (dmax t)) (fst (enumd_loop f t d zd n s queue))"
    and "cptab_ok t \<Longrightarrow> cdtab_ok t \<Longrightarrow> dmax t < 2 ^ 64 \<Longrightarrow> 1 \<le> d \<Longrightarrow>
         list_all (item_inv t d) queue' \<Longrightarrow>
         list_all (within (dmax t)) (fst (enumd_flush f t d zd n queue'))"
proof (induction f t d p zd n and f t d zd n s queue and f t d zd n queue'
    rule: enumd_enumd_loop_enumd_flush.induct)
  case (1 t d p zd n)
  then show ?case by simp
next
  case (2 f t d p zd n)
  show ?case
  proof (cases "cdmin t \<le> d")
    case True
    then show ?thesis using enumcd_within [OF "2.prems"(2)] by simp
  next
    case False
    define x where "x = (p + 2 ^ 64 - 1) mod 2 ^ 64"
    define pi where "pi = pimaxp t x d (dmax t)"
    have xp: "x < p"
    proof -
      have "x = (p - 1) mod 2 ^ 64" unfolding x_def using "2.prems"(4)
        by (metis (no_types, lifting) Nat.add_diff_assoc2 add.commute mod_add_self1)
      also have "\<dots> \<le> p - 1" by (rule mod_less_eq_dividend)
      finally show ?thesis using "2.prems"(4) by simp
    qed
    show ?thesis
    proof (cases "pi = 0")
      case True
      then show ?thesis using False by (simp add: pi_def x_def)
    next
      case nz: False
      note pr = pimaxp_props [of t x d "dmax t", folded pi_def, OF nz]
      have li: "loop_inv t d (cptab t ! pi, pi, 1)"
        unfolding loop_inv_def using pr xp "2.prems"(5) by simp
      have "list_all (within (dmax t)) (fst (enumd_loop f t d zd n (cptab t ! pi, pi, 1) []))"
        using "2.IH" [OF False _ nz] "2.prems" li unfolding pi_def x_def by simp
      then show ?thesis using False nz by (simp add: pi_def x_def Let_def)
    qed
  qed
next
  case (3 t d zd n s queue)
  then show ?case by simp
next
  case (4 f t d zd n s queue)
  note ok = "4.prems"(1,2,3) and d1 = "4.prems"(4) and li = "4.prems"(5) and qi = "4.prems"(6)
  show ?case
  proof (cases "fst (snd s) = 0 \<or> length queue = IBATCH")
    case True
    show ?thesis
    proof (cases "queue = []")
      case True
      then show ?thesis using \<open>fst (snd s) = 0 \<or> length queue = IBATCH\<close> by simp
    next
      case ne: False
      have fl: "list_all (within (dmax t)) (fst (enumd_flush f t d zd n queue))"
        using "4.IH"(1) [OF True ne ok d1 qi] .
      have rest: "list_all (within (dmax t))
          (fst (if fst (snd s) = 0 then ([], Finished)
                else emit [Append d (fst s)] (enumd_loop f t d zd n (enumd_next t d s) [s])))"
      proof (cases "fst (snd s) = 0")
        case True
        then show ?thesis by simp
      next
        case nz: False
        have "list_all (within (dmax t)) (fst (enumd_loop f t d zd n (enumd_next t d s) [s]))"
          using "4.IH"(2) [OF True ne nz ok d1 loop_inv_next [OF ok(1,3) d1 li nz]]
            loop_inv_item [OF li nz] by simp
        then show ?thesis using nz loop_inv_within [OF li nz] by (simp add: all_emit)
      qed
      show ?thesis using True ne all_and_then [OF fl rest] by simp
    qed
  next
    case False
    then have nz: "fst (snd s) \<noteq> 0" by simp
    have "list_all (within (dmax t)) (fst (enumd_loop f t d zd n (enumd_next t d s) (queue @ [s])))"
      using "4.IH"(3) [OF False ok d1 loop_inv_next [OF ok(1,3) d1 li nz]]
        loop_inv_item [OF li nz] qi by simp
    then show ?thesis using False loop_inv_within [OF li nz] by (simp add: all_emit)
  qed
next
  case (5 t d zd n queue)
  then show ?case by simp
next
  case (6 f t d zd n)
  then show ?case by simp
next
  case (7 f t d zd n a pi e queue)
  note ok = "7.prems"(1,2,3) and d1 = "7.prems"(4) and qi = "7.prems"(5)
  define ab where "ab = (a * d) mod 2 ^ 64"
  define r where "r = fcrt_roots a d (cached_cuberoots_modq t pi e) zd n"
  have it0: "0 < pi" "pi < length (cptab t)" "a = cptab t ! pi ^ e" "1 \<le> e" "d * a \<le> dmax t"
    using qi by (auto simp: item_inv_def)
  have "cptab t ! pi \<le> a"
    unfolding it0(3) using cptab_ge2 [OF ok(1) it0(1,2)] it0(4) self_le_power [of "cptab t ! pi" e]
    by simp
  note it = it0(1,2) this it0(5)
  have "a * d \<le> dmax t" using it(4) by (simp add: mult.commute)
  then have abv: "ab = a * d" and abd: "ab \<le> dmax t"
    using ok(3) unfolding ab_def by simp_all
  have "a * 1 \<le> a * d" using d1 by (rule mult_le_mono2)
  then have "a \<le> ab" unfolding abv by simp
  then have pab: "cptab t ! pi \<le> ab" using it(3) by (meson le_trans)
  have p1: "1 \<le> cptab t ! pi" using cptab_ge2 [OF ok(1) it(1,2)] by simp
  have sub: "list_all (within (dmax t))
      (fst (if cdmin t \<le> ab then enumcd t ab (cptab t ! pi) r (length r)
            else enumd f t ab (cptab t ! pi) r (length r)))"
  proof (cases "cdmin t \<le> ab")
    case True
    then show ?thesis using enumcd_within [OF ok(2)] by simp
  next
    case False
    show ?thesis
      using "7.IH"(1) [OF ab_def r_def refl False ok p1 pab] False by simp
  qed
  have rest: "list_all (within (dmax t)) (fst (enumd_flush (Suc f) t d zd n queue))"
    using "7.IH"(2) [OF ab_def r_def refl ok d1] qi by simp
  have eq: "enumd_flush (Suc f) t d zd n ((a, pi, e) # queue) =
      emit [Prockd ab r (length r)]
        (and_then (if cdmin t \<le> ab then enumcd t ab (cptab t ! pi) r (length r)
                   else enumd f t ab (cptab t ! pi) r (length r))
           (enumd_flush (Suc f) t d zd n queue))"
    unfolding enumd_flush.simps Let_def ab_def r_def by (rule refl)
  show ?case
    unfolding eq using all_and_then [OF sub rest] abd by (simp add: all_emit)
qed

text \<open>
  Claim C4. Let the cached primes \<^verbatim>\<open>cptab[1..]\<close> be increasing and at least 2, the cofactors
  \<^verbatim>\<open>cdtab[1..]\<close> be in increasing order with each small one pointing to its own entry of
  \<^verbatim>\<open>sdtab\<close>, and \<open>dmax < 2\<^sup>6\<^sup>4\<close>. Then in a call of \<^verbatim>\<open>enumd\<close> for \<open>d\<close> and \<open>p\<close> with \<open>1 \<le> p \<le> d\<close>
  (\<^verbatim>\<open>process_primes\<close> calls it with \<open>d\<close> a power of the prime \<open>p\<close>), run for any number of
  steps, at every level of the recursion every prime power \<open>q\<close> that is stored in the
  queue of the call for \<open>d'\<close> satisfies \<open>d' * q \<le> dmax\<close>, and every call of \<^verbatim>\<open>prockd\<close>, by
  \<^verbatim>\<open>enumd\<close> or by \<^verbatim>\<open>enumcd\<close>, is for a \<open>d' \<le> dmax\<close>: a product above dmax is never stored and
  never emitted.
\<close>

theorem enumd_within_dmax:
  assumes "cptab_ok t" and "cdtab_ok t" and "dmax t < 2 ^ 64" and "1 \<le> p" and "p \<le> d"
  shows "list_all (within (dmax t)) (fst (enumd f t d p zd n))"
  using assms by (rule enum_within(1))

lemma tab33c_enum_fields:
  "dmax tab33c = 100" "cdmin tab33c = 25" "sdmin tab33c = 40" "sdmax tab33c = 2"
  "cptab tab33c = [0, 2, 5, 17]"
  "cdtab tab33c = [\<lparr>cd_d = 0, cd_p = 0, cd_n = 0, cd_r = 0, cd_sdpi = 0\<rparr>,
               \<lparr>cd_d = 2, cd_p = 2, cd_n = 1, cd_r = 0, cd_sdpi = 1\<rparr>,
               \<lparr>cd_d = 4, cd_p = 2, cd_n = 1, cd_r = 1, cd_sdpi = 0\<rparr>]"
  "cdroots tab33c = [1, 1]"
  "sdtab tab33c = [\<lparr>sd_d = 0, sd_n = 0, sd_r = 0, sd_i = 0\<rparr>, \<lparr>sd_d = 2, sd_n = 1, sd_r = 0, sd_i = 0\<rparr>]"
  "sdroots tab33c = [1]" "sdinvs tab33c = [0, 1]"
  "cached_cuberoots_modq tab33c = (\<lambda>pi e. cuberoots_of 33 ([0, 2, 5, 17] ! pi ^ e))"
  by (simp_all add: tab33c_def tab33_def)

lemma tab33c_ok: "cptab_ok tab33c" "cdtab_ok tab33c"
  by (simp_all add: cptab_ok_def cdtab_ok_def tab33c_enum_fields)

lemma enumd_numeral:
  "enumd (numeral k) t d p zd n =
     (if d \<ge> cdmin t then enumcd t d p zd n
      else
        let pi = pimaxp t ((p + 2 ^ 64 - 1) mod 2 ^ 64) d (dmax t) in
        if pi = 0 then ([], Finished)
        else enumd_loop (pred_numeral k) t d zd n (cptab t ! pi, pi, 1) [])"
  by (subst numeral_eq_Suc [of k]) (rule enumd.simps)

lemma enumd_loop_numeral:
  "enumd_loop (numeral k) t d zd n s queue =
     (if fst (snd s) = 0 \<or> length queue = IBATCH
      then
        if queue = [] then ([], Finished)
        else
          and_then (enumd_flush (pred_numeral k) t d zd n queue)
            (if fst (snd s) = 0 then ([], Finished)
             else emit [Append d (fst s)] (enumd_loop (pred_numeral k) t d zd n (enumd_next t d s) [s]))
      else emit [Append d (fst s)] (enumd_loop (pred_numeral k) t d zd n (enumd_next t d s) (queue @ [s])))"
  by (subst numeral_eq_Suc [of k]) (rule enumd_loop.simps)

lemma enumd_flush_numeral:
  "enumd_flush (numeral k) t d zd n ((a, pi, e) # queue) =
     (let ab = (a * d) mod 2 ^ 64;
          r = fcrt_roots a d (cached_cuberoots_modq t pi e) zd n;
          cnt = length r
      in emit [Prockd ab r cnt]
           (and_then
              (if ab \<ge> cdmin t then enumcd t ab (cptab t ! pi) r cnt
               else enumd (pred_numeral k) t ab (cptab t ! pi) r cnt)
              (enumd_flush (numeral k) t d zd n queue)))"
  unfolding numeral_eq_Suc [of k] by (rule enumd_flush.simps)

lemma enumd_flush_numeral_Nil: "enumd_flush (numeral k) t d zd n [] = ([], Finished)"
  unfolding numeral_eq_Suc [of k] by (rule enumd_flush.simps)

lemma roots33_small:
  "cuberoots_of 33 5 = [2]" "cuberoots_of 33 2 = [1]" "cuberoots_of 33 4 = [1]"
  by (simp_all add: cuberoots_of_def upt_0_numeral upt_Suc0_numeral)

lemma inv17: "m64_inv 5 17 = 7" "m64_inv 2 17 = 9" "m64_inv 4 17 = 13"
  by (simp_all add: m64_inv_def upt_0_numeral upt_Suc0_numeral)

lemma crt17:
  "fcrt_roots 5 17 [2] [16] (Suc 0) = [67]" "fcrt_roots 2 17 [Suc 0] [16] (Suc 0) = [33]"
  "fcrt_roots 4 17 [Suc 0] [16] (Suc 0) = [33]"
  by (simp_all add: fcrt_roots_def fcrt64_def inv17 Let_def)

lemma pimaxp17: "pimaxp tab33c 16 17 100 = 2" "pimaxp tab33c 4 85 100 = 0"
  by (simp_all add: pimaxp_def tab33c_enum_fields)

lemma next17:
  "enumd_next tab33c 17 (5, 2, Suc 0) = (2, Suc 0, Suc 0)"
  "enumd_next tab33c 17 (2, Suc 0, Suc 0) = (4, Suc 0, 2)"
  "enumd_next tab33c 17 (4, Suc 0, 2) = (0, 0, Suc 0)"
  by (simp_all add: enumd_next_def tab33c_enum_fields Let_def)

lemma cdentry33c:
  "cdentry tab33c 4 85 100 = None" "cdentry tab33c (Suc 0) 34 100 = None"
  "cdentry tab33c (Suc 0) 68 100 = None" "cdentry tab33c 28 29 100 = Some (Suc 0)"
  by (simp_all add: cdentry_def tab33c_enum_fields)

lemma enumd_17:
  "enumd 8 tab33c 17 17 [16] 1 =
     ([Append 17 5, Append 17 2, Append 17 4, Prockd 85 [67] 1, Prockd 34 [33] 1, Prockd 68 [33] 1],
      Finished)"
  by (simp add: enumd_numeral enumd_loop_numeral enumd_flush_numeral enumd_flush_numeral_Nil tab33c_enum_fields
      pimaxp17 next17 IBATCH_def emit_def and_then_def roots33_small crt17 Let_def enumcd_def
      cdentry33c)

lemma enumcd_29: "enumd 1 tab33c 29 29 [9] 1 = ([Prockd 58 [9] 1], Finished)"
  by (simp add: tab33c_enum_fields enumcd_def cdentry33c enumcd_loop.simps Let_def IBATCH_def
      emit_def enumcd_small_def b32_crt64_def)

text \<open>
  Witness for C4, with k = 33 and dmax = 100: from \<open>d = 17\<close> the enumerator stores 5, then
  2 and 4 (\<open>17 * 25\<close> and \<open>17 * 8\<close> are above 100), and calls \<^verbatim>\<open>prockd\<close> for 85, 34 and 68;
  from \<open>d = 29 \<ge> cdmin\<close> it calls \<^verbatim>\<open>prockd\<close> for 58 through \<^verbatim>\<open>enumcd\<close>.
\<close>

theorem enumd_within_dmax_witness:
  "cptab_ok tab33c \<and> cdtab_ok tab33c \<and> dmax tab33c = 100 \<and>
   enumd 8 tab33c 17 17 [16] 1 =
     ([Append 17 5, Append 17 2, Append 17 4, Prockd 85 [67] 1, Prockd 34 [33] 1, Prockd 68 [33] 1],
      Finished) \<and>
   list_all (within (dmax tab33c)) (fst (enumd 8 tab33c 17 17 [16] 1)) \<and>
   enumd 1 tab33c 29 29 [9] 1 = ([Prockd 58 [9] 1], Finished) \<and>
   list_all (within (dmax tab33c)) (fst (enumd 1 tab33c 29 29 [9] 1))"
  using enumd_within_dmax [of tab33c 17 17 8 "[16]" 1]
    enumd_within_dmax [of tab33c 29 29 1 "[9]" 1] tab33c_ok enumd_17 enumcd_29
  by (simp add: tab33c_enum_fields)

section \<open>Proofs: primes, the Chinese remainder theorem and cube roots\<close>
























section \<open>Proofs: the roots that the enumerator passes on\<close>




































end
